theory Spec2Isabelle
  imports Main
begin

section \<open>Values\<close>

text \<open>
  The script is JavaScript.  The numbers it handles are vertex ids, loop counters,
  dimensions and mask bits; they are modelled as unbounded integers (the source's numbers
  are doubles, exact on integers up to \<open>2^53\<close>).  A mask element or a visibility flag is
  any JavaScript value the script can put there: a number, a boolean (the ring predicate
  returns one), \<open>undefined\<close> (a read past the end of an array) or \<open>NaN\<close>
  (\<open>1 - undefined\<close>).
\<close>

datatype jsval = Num int | Bool bool | Undefined | NaN

text \<open>Truthiness, as \<open>if (face.visible())\<close> tests it.\<close>

fun truthy :: "jsval \<Rightarrow> bool" where
  "truthy (Num n) = (n \<noteq> 0)"
| "truthy (Bool b) = b"
| "truthy Undefined = False"
| "truthy NaN = False"

text \<open>\<open>a[i]\<close> on an array: \<open>undefined\<close> past the end.\<close>

definition array_get :: "jsval list \<Rightarrow> nat \<Rightarrow> jsval" where
  "array_get a k = (if k < length a then a ! k else Undefined)"

text \<open>\<open>1 - bit\<close>, with the conversion to a number that \<open>-\<close> performs.\<close>

fun one_minus :: "jsval \<Rightarrow> jsval" where
  "one_minus (Num n) = Num (1 - n)"
| "one_minus (Bool b) = Num (if b then 0 else 1)"
| "one_minus Undefined = NaN"
| "one_minus NaN = NaN"

text \<open>
  \<open>a % b\<close> on integers: the remainder has the sign of the dividend, and \<open>a % 0\<close> is
  \<open>NaN\<close>, here \<open>None\<close>.
\<close>

definition js_rem :: "int \<Rightarrow> int \<Rightarrow> int option" where
  "js_rem a b = (if b = 0 then None else Some (sgn a * (\<bar>a\<bar> mod \<bar>b\<bar>)))"

section \<open>Constants and classes\<close>

definition QUAD :: int where
  "QUAD = 4"

definition TRI :: int where
  "TRI = 3"

record face =
  face_index_array :: "int list"
  face_visible :: jsval

record surface =
  dim :: "int \<times> int"
  face_array :: "face list"
  draw_mode :: int

text \<open>
  The script has one surface \<open>g.surface\<close> and one filter \<open>g.filter\<close>, which holds a
  reference to that same surface: what the filter writes onto the faces is what the
  surface reads.  The world keeps the surface once, the filter's mask, the draw flag
  \<open>g.draw\<close>, and the two loop counters \<open>i\<close> and \<open>j\<close>, which the source assigns without
  declaring them and which are therefore global variables, shared by every loop and
  visible to the predicate handed to \<open>Filter.generate\<close>.
\<close>

record world =
  glob_i :: int
  glob_j :: int
  draw :: bool
  g_surface :: surface
  g_mask :: "jsval list"

definition face_count :: "surface \<Rightarrow> nat" where
  "face_count s = length (face_array s)"

section \<open>Surface: grids\<close>

text \<open>
  The sector loop of \<open>quad_grid\<close>: \<open>for (j = 0; j < dim[0] - 1; j++)\<close>, from the current
  \<open>j\<close>; it returns the final \<open>j\<close> and the face array.
\<close>

function quad_sector :: "int \<Rightarrow> int \<Rightarrow> int \<Rightarrow> face list \<Rightarrow> int \<times> face list" where
  "quad_sector cols start j fa =
     (if j < cols - 1
      then quad_sector cols start (j + 1)
             (fa @ [\<lparr>face_index_array =
                       [start + j + 1, start + j, start + j + cols, start + j + cols + 1],
                     face_visible = Num 1\<rparr>])
      else (j, fa))"
  by pat_completeness auto
termination
  by (relation "measure (\<lambda>(cols, start, j, fa). nat (cols - 1 - j))") auto

declare quad_sector.simps [simp del]

text \<open>The stack loop: \<open>for (i = 0; i < dim[1] - 1; i++)\<close>, from the current \<open>i\<close>.\<close>

function quad_stack :: "int \<times> int \<Rightarrow> int \<Rightarrow> int \<Rightarrow> face list \<Rightarrow> int \<times> int \<times> face list" where
  "quad_stack d i j fa =
     (if i < snd d - 1
      then (case quad_sector (fst d) (i * fst d) 0 fa of
              (j', fa') \<Rightarrow> quad_stack d (i + 1) j' fa')
      else (i, j, fa))"
  by pat_completeness auto
termination
  by (relation "measure (\<lambda>(d, i, j, fa). nat (snd d - 1 - i))") auto

declare quad_stack.simps [simp del]

definition quad_grid :: "world \<Rightarrow> world" where
  "quad_grid w =
     (case quad_stack (dim (g_surface w)) 0 (glob_j w) [] of
        (i', j', fa) \<Rightarrow>
          w\<lparr>glob_i := i', glob_j := j', g_surface := (g_surface w)\<lparr>face_array := fa\<rparr>\<rparr>)"

text \<open>
  The two loops of \<open>tri_grid\<close>'s first half (near to far).
\<close>

function tri_sector_near :: "int \<Rightarrow> int \<Rightarrow> int \<Rightarrow> face list \<Rightarrow> int \<times> face list" where
  "tri_sector_near cols start j fa =
     (if j < cols - 1
      then tri_sector_near cols start (j + 1)
             (fa @ [\<lparr>face_index_array = [start + j, start + j + cols - 1, start + j + cols],
                     face_visible = Num 1\<rparr>])
      else (j, fa))"
  by pat_completeness auto
termination
  by (relation "measure (\<lambda>(cols, start, j, fa). nat (cols - 1 - j))") auto

declare tri_sector_near.simps [simp del]

function tri_stack_near :: "int \<times> int \<Rightarrow> int \<Rightarrow> int \<Rightarrow> face list \<Rightarrow> int \<times> int \<times> face list" where
  "tri_stack_near d i j fa =
     (if i < snd d - 1
      then (case tri_sector_near (fst d) (i * fst d + 1) 0 fa of
              (j', fa') \<Rightarrow> tri_stack_near d (i + 1) j' fa')
      else (i, j, fa))"
  by pat_completeness auto
termination
  by (relation "measure (\<lambda>(d, i, j, fa). nat (snd d - 1 - i))") auto

declare tri_stack_near.simps [simp del]

text \<open>
  The two loops of its second half (far to near): \<open>for (j = dim[0]; j > 1; j--)\<close> inside
  \<open>for (i = dim[1] - 1; i > 0; i--)\<close>.
\<close>

function tri_sector_far :: "int \<Rightarrow> int \<Rightarrow> int \<Rightarrow> face list \<Rightarrow> int \<times> face list" where
  "tri_sector_far cols start j fa =
     (if j > 1
      then tri_sector_far cols start (j - 1)
             (fa @ [\<lparr>face_index_array = [start - j - cols, start - j, start - j - cols + 1],
                     face_visible = Num 1\<rparr>])
      else (j, fa))"
  by pat_completeness auto
termination
  by (relation "measure (\<lambda>(cols, start, j, fa). nat j)") auto

declare tri_sector_far.simps [simp del]

function tri_stack_far :: "int \<times> int \<Rightarrow> int \<Rightarrow> int \<Rightarrow> face list \<Rightarrow> int \<times> int \<times> face list" where
  "tri_stack_far d i j fa =
     (if i > 0
      then (case tri_sector_far (fst d) ((i + 1) * fst d) (fst d) fa of
              (j', fa') \<Rightarrow> tri_stack_far d (i - 1) j' fa')
      else (i, j, fa))"
  by pat_completeness auto
termination
  by (relation "measure (\<lambda>(d, i, j, fa). nat i)") auto

declare tri_stack_far.simps [simp del]

definition tri_grid :: "world \<Rightarrow> world" where
  "tri_grid w =
     (case tri_stack_near (dim (g_surface w)) 0 (glob_j w) [] of
        (i1, j1, fa1) \<Rightarrow>
          (case tri_stack_far (dim (g_surface w)) (snd (dim (g_surface w)) - 1) j1 fa1 of
             (i2, j2, fa2) \<Rightarrow>
               w\<lparr>glob_i := i2, glob_j := j2,
                 g_surface := (g_surface w)\<lparr>face_array := fa2\<rparr>\<rparr>))"

text \<open>\<open>Surface.generate\<close>: every draw mode other than \<open>QUAD\<close> takes the triangle grid.\<close>

definition surface_generate :: "world \<Rightarrow> world" where
  "surface_generate w =
     (if draw_mode (g_surface w) = QUAD then quad_grid w else tri_grid w)"

section \<open>Surface: index array\<close>

definition index_array :: "surface \<Rightarrow> int list" where
  "index_array s =
     concat (map (\<lambda>face. if truthy (face_visible face) then face_index_array face
                          else (if draw_mode s = QUAD then [0, 0, 0, 0] else [0, 0, 0]))
               (face_array s))"

section \<open>Filter\<close>

text \<open>
  \<open>Filter.apply\<close>: \<open>forEach\<close> over the face array, the callback's second argument being
  the position; each face is reset to visible, then given the mask element at its position.
\<close>

fun apply_each :: "jsval list \<Rightarrow> nat \<Rightarrow> face list \<Rightarrow> face list" where
  "apply_each m k [] = []"
| "apply_each m k (face # fs) =
     (face\<lparr>face_visible := Num 1\<rparr>)\<lparr>face_visible := array_get m k\<rparr> # apply_each m (Suc k) fs"

definition filter_apply :: "world \<Rightarrow> world" where
  "filter_apply w =
     w\<lparr>g_surface := (g_surface w)\<lparr>face_array := apply_each (g_mask w) 0 (face_array (g_surface w))\<rparr>\<rparr>"

text \<open>
  \<open>Filter.generate(func, order)\<close>.  The predicate \<open>func\<close> takes no argument; what it can
  read is the world (the loop counters \<open>i\<close> and \<open>j\<close> and the surface among it), and it may
  keep a state of its own (a random generator, a recorder), of type \<open>'s\<close>.  It is taken
  not to write the world.  Each loop below carries the counters, the predicate's state
  and the array \<open>a\<close>.
\<close>

type_synonym 's predicate = "'s \<Rightarrow> world \<Rightarrow> jsval \<times> 's"

function gen_sector_near ::
  "'s predicate \<Rightarrow> world \<Rightarrow> int \<Rightarrow> int \<Rightarrow> 's \<Rightarrow> jsval list \<Rightarrow> int \<times> 's \<times> jsval list" where
  "gen_sector_near func w i j s a =
     (if j < fst (dim (g_surface w)) - 1
      then (case func s (w\<lparr>glob_i := i, glob_j := j\<rparr>) of
              (v, s') \<Rightarrow> gen_sector_near func w i (j + 1) s' (a @ [v]))
      else (j, s, a))"
  by pat_completeness auto
termination
  by (relation "measure (\<lambda>(func, w, i, j, s, a). nat (fst (dim (g_surface w)) - 1 - j))") auto

declare gen_sector_near.simps [simp del]

function gen_stack_near ::
  "'s predicate \<Rightarrow> world \<Rightarrow> int \<Rightarrow> int \<Rightarrow> 's \<Rightarrow> jsval list \<Rightarrow> int \<times> int \<times> 's \<times> jsval list" where
  "gen_stack_near func w i j s a =
     (if i < snd (dim (g_surface w)) - 1
      then (case gen_sector_near func w i 0 s a of
              (j', s', a') \<Rightarrow> gen_stack_near func w (i + 1) j' s' a')
      else (i, j, s, a))"
  by pat_completeness auto
termination
  by (relation "measure (\<lambda>(func, w, i, j, s, a). nat (snd (dim (g_surface w)) - 1 - i))") auto

declare gen_stack_near.simps [simp del]

function gen_sector_far ::
  "'s predicate \<Rightarrow> world \<Rightarrow> int \<Rightarrow> int \<Rightarrow> 's \<Rightarrow> jsval list \<Rightarrow> int \<times> 's \<times> jsval list" where
  "gen_sector_far func w i j s a =
     (if j > 1
      then (case func s (w\<lparr>glob_i := i, glob_j := j\<rparr>) of
              (v, s') \<Rightarrow> gen_sector_far func w i (j - 1) s' (a @ [v]))
      else (j, s, a))"
  by pat_completeness auto
termination
  by (relation "measure (\<lambda>(func, w, i, j, s, a). nat j)") auto

declare gen_sector_far.simps [simp del]

function gen_stack_far ::
  "'s predicate \<Rightarrow> world \<Rightarrow> int \<Rightarrow> int \<Rightarrow> 's \<Rightarrow> jsval list \<Rightarrow> int \<times> int \<times> 's \<times> jsval list" where
  "gen_stack_far func w i j s a =
     (if i > 0
      then (case gen_sector_far func w i (fst (dim (g_surface w))) s a of
              (j', s', a') \<Rightarrow> gen_stack_far func w (i - 1) j' s' a')
      else (i, j, s, a))"
  by pat_completeness auto
termination
  by (relation "measure (\<lambda>(func, w, i, j, s, a). nat i)") auto

declare gen_stack_far.simps [simp del]

text \<open>The loop of the other branch: \<open>for (i = 0; i < face_count(); i++)\<close>.\<close>

function gen_flat ::
  "'s predicate \<Rightarrow> world \<Rightarrow> int \<Rightarrow> 's \<Rightarrow> jsval list \<Rightarrow> int \<times> 's \<times> jsval list" where
  "gen_flat func w i s a =
     (if i < int (face_count (g_surface w))
      then (case func s (w\<lparr>glob_i := i\<rparr>) of
              (v, s') \<Rightarrow> gen_flat func w (i + 1) s' (a @ [v]))
      else (i, s, a))"
  by pat_completeness auto
termination
  by (relation "measure (\<lambda>(func, w, i, s, a). nat (int (face_count (g_surface w)) - i))") auto

declare gen_flat.simps [simp del]

definition filter_generate :: "'s predicate \<Rightarrow> bool \<Rightarrow> 's \<Rightarrow> world \<Rightarrow> world \<times> 's" where
  "filter_generate func order s w =
     (case (if order
            then (case gen_stack_near func w 0 (glob_j w) s [] of
                    (i1, j1, s1, a1) \<Rightarrow>
                      if draw_mode (g_surface w) = TRI
                      then gen_stack_far func w (snd (dim (g_surface w)) - 1) j1 s1 a1
                      else (i1, j1, s1, a1))
            else (case gen_flat func w 0 s [] of
                    (i1, s1, a1) \<Rightarrow> (i1, glob_j w, s1, a1))) of
        (i', j', s', a) \<Rightarrow> (filter_apply (w\<lparr>glob_i := i', glob_j := j', g_mask := a\<rparr>), s'))"

section \<open>Messages\<close>

text \<open>
  The handlers of the messages the host sends.  A message's arguments are taken to be
  integers.  Left out are \<open>bang\<close>, which copies the index array into a matrix of the host
  and sends it with the face count, \<open>info\<close> and the \<open>print\<close> methods, which write to the
  console, and \<open>random\<close>, whose predicate draws floating-point numbers.
\<close>

definition dim_msg :: "int list \<Rightarrow> world \<Rightarrow> world" where
  "dim_msg a w =
     (if length a = 2 \<and> a ! 0 > 0 \<and> a ! 1 > 0
      then (surface_generate (w\<lparr>g_surface := (g_surface w)\<lparr>dim := (a ! 0, a ! 1)\<rparr>\<rparr>))\<lparr>draw := True\<rparr>
      else w)"

definition draw_mode_msg :: "string \<Rightarrow> world \<Rightarrow> world" where
  "draw_mode_msg m w =
     (if m = ''quads'' \<or> m = ''triangles''
      then (surface_generate
              (w\<lparr>g_surface := (g_surface w)\<lparr>draw_mode := (if m = ''quads'' then QUAD else TRI)\<rparr>\<rparr>))
             \<lparr>draw := True\<rparr>
      else w)"

definition list_msg :: "int list \<Rightarrow> world \<Rightarrow> world" where
  "list_msg a w = (filter_apply (w\<lparr>g_mask := map Num a\<rparr>))\<lparr>draw := True\<rparr>"

text \<open>The handlers of the example script.\<close>

definition fill :: "world \<Rightarrow> world" where
  "fill w = (fst (filter_generate (\<lambda>s w'. (Num 1, s)) False () w))\<lparr>draw := True\<rparr>"

definition reverse :: "world \<Rightarrow> world" where
  "reverse w = (filter_apply (w\<lparr>g_mask := map one_minus (g_mask w)\<rparr>))\<lparr>draw := True\<rparr>"

definition ring_func :: "int \<Rightarrow> unit predicate" where
  "ring_func count s w =
     (case js_rem (glob_i w) count of
        None \<Rightarrow> (Bool False, s)
      | Some r \<Rightarrow> (Bool (r > 0), s))"

definition ring :: "int \<Rightarrow> world \<Rightarrow> world" where
  "ring count w = (fst (filter_generate (ring_func count) True () w))\<lparr>draw := True\<rparr>"

text \<open>
  The predicate of \<open>spiral\<close>: \<open>i < dim[0] * (i % dim[1]) ? 0 : 1\<close>; a comparison with
  \<open>NaN\<close> is false.
\<close>

definition spiral_func :: "unit predicate" where
  "spiral_func s w =
     (case js_rem (glob_i w) (snd (dim (g_surface w))) of
        None \<Rightarrow> (Num 1, s)
      | Some r \<Rightarrow> ((if glob_i w < fst (dim (g_surface w)) * r then Num 0 else Num 1), s))"

definition spiral :: "world \<Rightarrow> world" where
  "spiral w = (fst (filter_generate spiral_func False () w))\<lparr>draw := True\<rparr>"

section \<open>The script's globals\<close>

text \<open>
  \<open>new Surface(dim, draw_mode)\<close> has no face yet, \<open>new Filter(surface)\<close> an empty mask, and
  \<open>g.draw\<close> starts false.  The counters \<open>i\<close> and \<open>j\<close> do not exist before a loop
  assigns them; they are given 0 here, and a predicate is invoked only after a loop has
  assigned \<open>i\<close>.  The script starts in \<open>new_world (20, 20) QUAD\<close>.
\<close>

definition new_world :: "int \<times> int \<Rightarrow> int \<Rightarrow> world" where
  "new_world d m =
     \<lparr>glob_i = 0, glob_j = 0, draw = False,
      g_surface = \<lparr>dim = d, face_array = [], draw_mode = m\<rparr>, g_mask = []\<rparr>"

text \<open>The world when the script has loaded.\<close>

definition loaded :: world where
  "loaded = new_world (20, 20) QUAD"

section \<open>Invocations of a predicate\<close>

text \<open>
  Two devices to speak of the invocations that \<open>Filter.generate\<close> makes.  \<open>calls func ws s\<close>
  invokes \<open>func\<close> once in each world of \<open>ws\<close>, in order, threading the predicate's state, and
  returns the final state and the values returned.  \<open>recording func\<close> is \<open>func\<close> wrapped so
  as to note, at each invocation, the counters \<open>i\<close> and \<open>j\<close> it finds and the value it
  returns; the length of the record is the number of invocations.
\<close>

fun calls :: "'s predicate \<Rightarrow> world list \<Rightarrow> 's \<Rightarrow> 's \<times> jsval list" where
  "calls func [] s = (s, [])"
| "calls func (w # ws) s =
     (case func s w of
        (v, s') \<Rightarrow> (case calls func ws s' of (s'', vs) \<Rightarrow> (s'', v # vs)))"

definition recording :: "'s predicate \<Rightarrow> ('s \<times> (int \<times> int \<times> jsval) list) predicate" where
  "recording func st w =
     (case st of
        (s, tr) \<Rightarrow> (case func s w of (v, s') \<Rightarrow> (v, (s', tr @ [(glob_i w, glob_j w, v)]))))"

section \<open>Lists of lists\<close>

lemma nth_concat_map_uniform:
  "\<forall>x \<in> set xs. length (f x) = m \<Longrightarrow> i < length xs \<Longrightarrow> j < m \<Longrightarrow>
   concat (map f xs) ! (i * m + j) = f (xs ! i) ! j"
proof (induction xs arbitrary: i)
  case Nil
  then show ?case by simp
next
  case (Cons x xs)
  from Cons.prems have lx: "length (f x) = m" and rest: "\<forall>y \<in> set xs. length (f y) = m"
    by simp_all
  show ?case
  proof (cases i)
    case 0
    with lx Cons.prems(3) show ?thesis by (simp add: nth_append)
  next
    case (Suc i')
    with Cons.prems(2) have i': "i' < length xs" by simp
    have "concat (map f xs) ! (i' * m + j) = f (xs ! i') ! j"
      by (rule Cons.IH [OF rest i' Cons.prems(3)])
    moreover have "concat (map f (x # xs)) ! (Suc i' * m + j) = concat (map f xs) ! (i' * m + j)"
      using lx by (simp add: nth_append)
    ultimately show ?thesis using Suc by simp
  qed
qed

lemma length_concat_map_uniform:
  "\<forall>x \<in> set xs. length (f x) = m \<Longrightarrow> length (concat (map f xs)) = length xs * m"
  by (induction xs) simp_all

section \<open>The quad grid\<close>

lemma quad_sector_eq:
  "quad_sector cols start j fa =
     (max j (cols - 1),
      fa @ map (\<lambda>j. \<lparr>face_index_array =
                        [start + j + 1, start + j, start + j + cols, start + j + cols + 1],
                      face_visible = Num 1\<rparr>) [j..cols - 2])"
proof (induction cols start j fa rule: quad_sector.induct)
  case (1 cols start j fa)
  show ?case
  proof (cases "j < cols - 1")
    case True
    then have "[j..cols - 2] = j # [j + 1..cols - 2]" by (simp add: upto_rec1)
    with True 1 show ?thesis by (subst quad_sector.simps) simp
  next
    case False
    then show ?thesis by (subst quad_sector.simps) simp
  qed
qed

lemma quad_stack_eq:
  "quad_stack d i j fa =
     (max i (snd d - 1), (if i < snd d - 1 then max 0 (fst d - 1) else j),
      fa @ concat (map (\<lambda>i. map (\<lambda>j. \<lparr>face_index_array =
                                          [i * fst d + j + 1, i * fst d + j,
                                           i * fst d + j + fst d, i * fst d + j + fst d + 1],
                                        face_visible = Num 1\<rparr>) [0..fst d - 2])
                     [i..snd d - 2]))"
proof (induction d i j fa rule: quad_stack.induct)
  case (1 d i j fa)
  show ?case
  proof (cases "i < snd d - 1")
    case True
    then have "[i..snd d - 2] = i # [i + 1..snd d - 2]" by (simp add: upto_rec1)
    with True 1 show ?thesis by (subst quad_stack.simps) (simp add: quad_sector_eq)
  next
    case False
    then show ?thesis by (subst quad_stack.simps) simp
  qed
qed

lemma quad_grid_face_array:
  "face_array (g_surface (quad_grid w)) =
     concat (map (\<lambda>i. map (\<lambda>j. \<lparr>face_index_array =
                                     [i * fst (dim (g_surface w)) + j + 1,
                                      i * fst (dim (g_surface w)) + j,
                                      i * fst (dim (g_surface w)) + j + fst (dim (g_surface w)),
                                      i * fst (dim (g_surface w)) + j + fst (dim (g_surface w)) + 1],
                                   face_visible = Num 1\<rparr>) [0..fst (dim (g_surface w)) - 2])
               [0..snd (dim (g_surface w)) - 2])"
  by (simp add: quad_grid_def quad_stack_eq)

lemma grid_position:
  assumes "0 \<le> i" "i < rows - 1" "0 \<le> j" "j < cols - 1"
  shows "nat (i * (cols - 1) + j) = nat i * nat (cols - 1) + nat j"
  using assms by (simp add: nat_add_distrib nat_mult_distrib)

text \<open>
  Claim C1.  On a surface of dimension \<open>(cols, rows)\<close> with \<open>cols \<ge> 2\<close> and \<open>rows \<ge> 2\<close>,
  \<open>quad_grid\<close> leaves \<open>(rows - 1) * (cols - 1)\<close> faces, all visible: stack after stack
  (\<open>i = 0 .. rows - 2\<close>) and, within a stack, sector after sector (\<open>j = 0 .. cols - 2\<close>);
  the face of \<open>(i, j)\<close>, at position \<open>i * (cols - 1) + j\<close>, has the indices
  \<open>[i * cols + j + 1, i * cols + j, i * cols + j + cols, i * cols + j + cols + 1]\<close>.
  It is the grid that \<open>Surface.generate\<close> builds in draw mode \<open>QUAD\<close>, and for dimension
  \<open>(3, 3)\<close> the index array is \<open>[1,0,3,4, 2,1,4,5, 4,3,6,7, 5,4,7,8]\<close>.
\<close>

theorem quad_grid_faces:
  assumes d: "dim (g_surface w) = (cols, rows)" and c: "2 \<le> cols" and r: "2 \<le> rows"
  shows "length (face_array (g_surface (quad_grid w))) = nat ((rows - 1) * (cols - 1))
       \<and> face_array (g_surface (quad_grid w)) =
           concat (map (\<lambda>i. map (\<lambda>j. \<lparr>face_index_array =
                                           [i * cols + j + 1, i * cols + j,
                                            i * cols + j + cols, i * cols + j + cols + 1],
                                         face_visible = Num 1\<rparr>) [0..cols - 2])
                     [0..rows - 2])
       \<and> (\<forall>i j. 0 \<le> i \<and> i < rows - 1 \<and> 0 \<le> j \<and> j < cols - 1 \<longrightarrow>
             face_index_array (face_array (g_surface (quad_grid w)) ! nat (i * (cols - 1) + j)) =
               [i * cols + j + 1, i * cols + j, i * cols + j + cols, i * cols + j + cols + 1])
       \<and> (draw_mode (g_surface w) = QUAD \<longrightarrow> surface_generate w = quad_grid w)
       \<and> (cols = 3 \<and> rows = 3 \<longrightarrow>
             index_array (g_surface (quad_grid w)) =
               [1, 0, 3, 4, 2, 1, 4, 5, 4, 3, 6, 7, 5, 4, 7, 8])"
proof -
  let ?f = "\<lambda>i. map (\<lambda>j. \<lparr>face_index_array =
                               [i * cols + j + 1, i * cols + j,
                                i * cols + j + cols, i * cols + j + cols + 1],
                             face_visible = Num 1\<rparr>) [0..cols - 2]"
  have fa: "face_array (g_surface (quad_grid w)) = concat (map ?f [0..rows - 2])"
    by (simp add: quad_grid_face_array d)
  have len_f: "\<forall>i \<in> set [0..rows - 2]. length (?f i) = nat (cols - 1)"
    by simp
  have len: "length (face_array (g_surface (quad_grid w))) = nat ((rows - 1) * (cols - 1))"
    unfolding fa length_concat_map_uniform [OF len_f] using c r
    by (simp add: nat_mult_distrib)
  have pos: "face_index_array (face_array (g_surface (quad_grid w)) ! nat (i * (cols - 1) + j)) =
               [i * cols + j + 1, i * cols + j, i * cols + j + cols, i * cols + j + cols + 1]"
    if "0 \<le> i \<and> i < rows - 1 \<and> 0 \<le> j \<and> j < cols - 1" for i j
  proof -
    from that have i: "nat i < length [0..rows - 2]" and j: "nat j < nat (cols - 1)"
      by simp_all
    have "concat (map ?f [0..rows - 2]) ! (nat i * nat (cols - 1) + nat j) =
            ?f ([0..rows - 2] ! nat i) ! nat j"
      by (rule nth_concat_map_uniform [OF len_f i j])
    moreover have "[0..rows - 2] ! nat i = i" using that by simp
    moreover have "?f i ! nat j = \<lparr>face_index_array =
                               [i * cols + j + 1, i * cols + j,
                                i * cols + j + cols, i * cols + j + cols + 1],
                             face_visible = Num 1\<rparr>"
      using that by simp
    ultimately show ?thesis
      using that by (simp add: fa grid_position [of i rows j cols])
  qed
  have three: "index_array (g_surface (quad_grid w)) =
               [1, 0, 3, 4, 2, 1, 4, 5, 4, 3, 6, 7, 5, 4, 7, 8]" if "cols = 3 \<and> rows = 3"
  proof -
    have "[0..(1::int)] = [0, 1]" by (simp add: upto.simps)
    with that show ?thesis by (simp add: index_array_def fa)
  qed
  have gen: "surface_generate w = quad_grid w" if "draw_mode (g_surface w) = QUAD"
    using that by (simp add: surface_generate_def)
  from len fa pos gen three show ?thesis
    by blast
qed


theorem quad_grid_faces_witness:
  "dim (g_surface (new_world (3, 3) QUAD)) = (3, 3) \<and> (2::int) \<le> 3
   \<and> length (face_array (g_surface (quad_grid (new_world (3, 3) QUAD)))) = 4
   \<and> face_index_array (face_array (g_surface (quad_grid (new_world (3, 3) QUAD))) ! 3) = [5, 4, 7, 8]
   \<and> surface_generate (new_world (3, 3) QUAD) = quad_grid (new_world (3, 3) QUAD)
   \<and> index_array (g_surface (quad_grid (new_world (3, 3) QUAD))) =
        [1, 0, 3, 4, 2, 1, 4, 5, 4, 3, 6, 7, 5, 4, 7, 8]"
proof -
  have d: "dim (g_surface (new_world (3, 3) QUAD)) = (3, 3)"
    by (simp add: new_world_def)
  have q: "draw_mode (g_surface (new_world (3, 3) QUAD)) = QUAD"
    by (simp add: new_world_def)
  have b: "(2::int) \<le> 3"
    by simp
  note t = quad_grid_faces [OF d b b]
  have "face_index_array (face_array (g_surface (quad_grid (new_world (3, 3) QUAD))) ! 3) = [5, 4, 7, 8]"
    using t [THEN conjunct2, THEN conjunct2, THEN conjunct1, rule_format, of 1 1]
    by (simp add: eval_nat_numeral)
  moreover have "length (face_array (g_surface (quad_grid (new_world (3, 3) QUAD)))) = 4"
    using t [THEN conjunct1] by simp
  moreover from t q have "surface_generate (new_world (3, 3) QUAD) = quad_grid (new_world (3, 3) QUAD)"
    by blast
  moreover from t have "index_array (g_surface (quad_grid (new_world (3, 3) QUAD))) =
        [1, 0, 3, 4, 2, 1, 4, 5, 4, 3, 6, 7, 5, 4, 7, 8]"
    by blast
  ultimately show ?thesis
    using d by simp
qed


section \<open>The triangle grid\<close>

lemma rev_upto_step: "a \<le> b \<Longrightarrow> rev [a..b] = b # rev [a..b - 1]"
  by (simp add: upto_rec2)

lemma nth_rev_upto: "int k < b - a + 1 \<Longrightarrow> rev [a..b] ! k = b - int k"
proof -
  assume k: "int k < b - a + 1"
  then have "k < length [a..b]" by simp
  then have "rev [a..b] ! k = [a..b] ! (length [a..b] - Suc k)" by (rule rev_nth)
  also have "length [a..b] - Suc k = nat (b - a - int k)" using k by simp
  also have "[a..b] ! nat (b - a - int k) = a + int (nat (b - a - int k))"
    using k by (intro nth_upto) simp
  finally show ?thesis using k by simp
qed

lemma tri_sector_near_eq:
  "tri_sector_near cols start j fa =
     (max j (cols - 1),
      fa @ map (\<lambda>j. \<lparr>face_index_array = [start + j, start + j + cols - 1, start + j + cols],
                      face_visible = Num 1\<rparr>) [j..cols - 2])"
proof (induction cols start j fa rule: tri_sector_near.induct)
  case (1 cols start j fa)
  show ?case
  proof (cases "j < cols - 1")
    case True
    then have "[j..cols - 2] = j # [j + 1..cols - 2]" by (simp add: upto_rec1)
    with True 1 show ?thesis by (subst tri_sector_near.simps) simp
  next
    case False
    then show ?thesis by (subst tri_sector_near.simps) simp
  qed
qed

lemma tri_stack_near_eq:
  "tri_stack_near d i j fa =
     (max i (snd d - 1), (if i < snd d - 1 then max 0 (fst d - 1) else j),
      fa @ concat (map (\<lambda>i. map (\<lambda>j. \<lparr>face_index_array =
                                          [i * fst d + 1 + j, i * fst d + 1 + j + fst d - 1,
                                           i * fst d + 1 + j + fst d],
                                        face_visible = Num 1\<rparr>) [0..fst d - 2])
                     [i..snd d - 2]))"
proof (induction d i j fa rule: tri_stack_near.induct)
  case (1 d i j fa)
  show ?case
  proof (cases "i < snd d - 1")
    case True
    then have "[i..snd d - 2] = i # [i + 1..snd d - 2]" by (simp add: upto_rec1)
    with True 1 show ?thesis by (subst tri_stack_near.simps) (simp add: tri_sector_near_eq)
  next
    case False
    then show ?thesis by (subst tri_stack_near.simps) simp
  qed
qed

lemma tri_sector_far_eq:
  "tri_sector_far cols start j fa =
     (min j 1,
      fa @ map (\<lambda>j. \<lparr>face_index_array = [start - j - cols, start - j, start - j - cols + 1],
                      face_visible = Num 1\<rparr>) (rev [2..j]))"
proof (induction cols start j fa rule: tri_sector_far.induct)
  case (1 cols start j fa)
  show ?case
  proof (cases "j > 1")
    case True
    then have "rev [2..j] = j # rev [2..j - 1]" by (simp add: rev_upto_step)
    with True 1 show ?thesis by (subst tri_sector_far.simps) simp
  next
    case False
    then show ?thesis by (subst tri_sector_far.simps) simp
  qed
qed

lemma tri_stack_far_eq:
  "tri_stack_far d i j fa =
     (min i 0, (if i > 0 then min (fst d) 1 else j),
      fa @ concat (map (\<lambda>i. map (\<lambda>j. \<lparr>face_index_array =
                                          [(i + 1) * fst d - j - fst d, (i + 1) * fst d - j,
                                           (i + 1) * fst d - j - fst d + 1],
                                        face_visible = Num 1\<rparr>) (rev [2..fst d]))
                     (rev [1..i])))"
proof (induction d i j fa rule: tri_stack_far.induct)
  case (1 d i j fa)
  show ?case
  proof (cases "i > 0")
    case True
    then have "rev [1..i] = i # rev [1..i - 1]" by (simp add: rev_upto_step)
    with True 1 show ?thesis by (subst tri_stack_far.simps) (simp add: tri_sector_far_eq)
  next
    case False
    then show ?thesis by (subst tri_stack_far.simps) simp
  qed
qed

lemma tri_grid_face_array:
  "face_array (g_surface (tri_grid w)) =
     concat (map (\<lambda>i. map (\<lambda>j. \<lparr>face_index_array =
                                     [i * fst (dim (g_surface w)) + 1 + j,
                                      i * fst (dim (g_surface w)) + 1 + j + fst (dim (g_surface w)) - 1,
                                      i * fst (dim (g_surface w)) + 1 + j + fst (dim (g_surface w))],
                                   face_visible = Num 1\<rparr>) [0..fst (dim (g_surface w)) - 2])
               [0..snd (dim (g_surface w)) - 2])
     @ concat (map (\<lambda>i. map (\<lambda>j. \<lparr>face_index_array =
                                     [(i + 1) * fst (dim (g_surface w)) - j - fst (dim (g_surface w)),
                                      (i + 1) * fst (dim (g_surface w)) - j,
                                      (i + 1) * fst (dim (g_surface w)) - j - fst (dim (g_surface w)) + 1],
                                   face_visible = Num 1\<rparr>) (rev [2..fst (dim (g_surface w))]))
               (rev [1..snd (dim (g_surface w)) - 1]))"
  by (simp add: tri_grid_def tri_stack_near_eq tri_stack_far_eq)


text \<open>
  Claim C2.  On a surface of dimension \<open>(cols, rows)\<close> with \<open>cols \<ge> 2\<close> and \<open>rows \<ge> 2\<close>,
  \<open>tri_grid\<close> leaves \<open>2 * (rows - 1) * (cols - 1)\<close> faces, all visible, in two halves.
  The first runs \<open>i = 0 .. rows - 2\<close>, \<open>j = 0 .. cols - 2\<close> and, with \<open>start = i * cols + 1\<close>,
  gives the triangle \<open>[start + j, start + j + cols - 1, start + j + cols]\<close>; the second runs
  \<open>i = rows - 1\<close> down to \<open>1\<close>, \<open>j = cols\<close> down to \<open>2\<close> and, with
  \<open>start = (i + 1) * cols\<close>, gives \<open>[start - j - cols, start - j, start - j - cols + 1]\<close>.
  It is the grid that \<open>Surface.generate\<close> builds in draw mode \<open>TRI\<close>, and for dimension
  \<open>(3, 3)\<close> the first face is \<open>[1, 3, 4]\<close>.
\<close>

theorem tri_grid_faces:
  assumes d: "dim (g_surface w) = (cols, rows)" and c: "2 \<le> cols" and r: "2 \<le> rows"
  shows "length (face_array (g_surface (tri_grid w))) = nat (2 * (rows - 1) * (cols - 1))
       \<and> face_array (g_surface (tri_grid w)) =
           concat (map (\<lambda>i. map (\<lambda>j. \<lparr>face_index_array =
                                           [i * cols + 1 + j, i * cols + 1 + j + cols - 1,
                                            i * cols + 1 + j + cols],
                                         face_visible = Num 1\<rparr>) [0..cols - 2])
                     [0..rows - 2])
           @ concat (map (\<lambda>i. map (\<lambda>j. \<lparr>face_index_array =
                                           [(i + 1) * cols - j - cols, (i + 1) * cols - j,
                                            (i + 1) * cols - j - cols + 1],
                                         face_visible = Num 1\<rparr>) (rev [2..cols]))
                     (rev [1..rows - 1]))
       \<and> (\<forall>i j. 0 \<le> i \<and> i < rows - 1 \<and> 0 \<le> j \<and> j < cols - 1 \<longrightarrow>
             face_index_array (face_array (g_surface (tri_grid w)) ! nat (i * (cols - 1) + j)) =
               [i * cols + 1 + j, i * cols + 1 + j + cols - 1, i * cols + 1 + j + cols])
       \<and> (\<forall>i j. 1 \<le> i \<and> i \<le> rows - 1 \<and> 2 \<le> j \<and> j \<le> cols \<longrightarrow>
             face_index_array (face_array (g_surface (tri_grid w))
                 ! nat ((rows - 1) * (cols - 1) + (rows - 1 - i) * (cols - 1) + (cols - j))) =
               [(i + 1) * cols - j - cols, (i + 1) * cols - j, (i + 1) * cols - j - cols + 1])
       \<and> (draw_mode (g_surface w) = TRI \<longrightarrow> surface_generate w = tri_grid w)
       \<and> (cols = 3 \<and> rows = 3 \<longrightarrow>
             face_index_array (face_array (g_surface (tri_grid w)) ! 0) = [1, 3, 4])"
proof -
  let ?f = "\<lambda>i. map (\<lambda>j. \<lparr>face_index_array =
                               [i * cols + 1 + j, i * cols + 1 + j + cols - 1,
                                i * cols + 1 + j + cols],
                             face_visible = Num 1\<rparr>) [0..cols - 2]"
  let ?g = "\<lambda>i. map (\<lambda>j. \<lparr>face_index_array =
                               [(i + 1) * cols - j - cols, (i + 1) * cols - j,
                                (i + 1) * cols - j - cols + 1],
                             face_visible = Num 1\<rparr>) (rev [2..cols])"
  let ?near = "concat (map ?f [0..rows - 2])"
  let ?far = "concat (map ?g (rev [1..rows - 1]))"
  have fa: "face_array (g_surface (tri_grid w)) = ?near @ ?far"
    by (simp add: tri_grid_face_array d)
  have len_f: "\<forall>i \<in> set [0..rows - 2]. length (?f i) = nat (cols - 1)"
    by simp
  have len_g: "\<forall>i \<in> set (rev [1..rows - 1]). length (?g i) = nat (cols - 1)"
    by simp
  have len_near: "length ?near = nat ((rows - 1) * (cols - 1))"
    unfolding length_concat_map_uniform [OF len_f] using c r
    by (simp add: nat_mult_distrib)
  have len_far: "length ?far = nat ((rows - 1) * (cols - 1))"
    unfolding length_concat_map_uniform [OF len_g] using c r
    by (simp add: nat_mult_distrib)
  have len: "length (face_array (g_surface (tri_grid w))) = nat (2 * (rows - 1) * (cols - 1))"
  proof -
    have "0 \<le> (rows - 1) * (cols - 1)" using c r by simp
    moreover have "2 * (rows - 1) * (cols - 1) = (rows - 1) * (cols - 1) + (rows - 1) * (cols - 1)"
      by simp
    ultimately have "nat (2 * (rows - 1) * (cols - 1)) =
                     nat ((rows - 1) * (cols - 1)) + nat ((rows - 1) * (cols - 1))"
      by (simp only: nat_add_distrib)
    then show ?thesis unfolding fa length_append len_near len_far by simp
  qed
  have near: "face_index_array (face_array (g_surface (tri_grid w)) ! nat (i * (cols - 1) + j)) =
               [i * cols + 1 + j, i * cols + 1 + j + cols - 1, i * cols + 1 + j + cols]"
    if "0 \<le> i \<and> i < rows - 1 \<and> 0 \<le> j \<and> j < cols - 1" for i j
  proof -
    from that have i: "nat i < length [0..rows - 2]" and j: "nat j < nat (cols - 1)"
      by simp_all
    have p: "nat (i * (cols - 1) + j) = nat i * nat (cols - 1) + nat j"
      using that by (simp add: grid_position [of i rows j cols])
    have "nat i * nat (cols - 1) + nat j < length [0..rows - 2] * nat (cols - 1)"
    proof -
      have "nat i * nat (cols - 1) + nat j < Suc (nat i) * nat (cols - 1)" using j by simp
      also have "\<dots> \<le> length [0..rows - 2] * nat (cols - 1)"
        using i by (intro mult_le_mono1 Suc_leI)
      finally show ?thesis .
    qed
    then have lt: "nat i * nat (cols - 1) + nat j < length ?near"
      unfolding length_concat_map_uniform [OF len_f] .
    have "?near ! (nat i * nat (cols - 1) + nat j) = ?f ([0..rows - 2] ! nat i) ! nat j"
      by (rule nth_concat_map_uniform [OF len_f i j])
    moreover have "[0..rows - 2] ! nat i = i" using that by simp
    moreover have "?f i ! nat j = \<lparr>face_index_array =
                               [i * cols + 1 + j, i * cols + 1 + j + cols - 1,
                                i * cols + 1 + j + cols],
                             face_visible = Num 1\<rparr>"
      using that by simp
    ultimately have "?near ! (nat i * nat (cols - 1) + nat j) = \<lparr>face_index_array =
                               [i * cols + 1 + j, i * cols + 1 + j + cols - 1,
                                i * cols + 1 + j + cols],
                             face_visible = Num 1\<rparr>"
      by simp
    then show ?thesis
      unfolding fa p nth_append using lt by simp
  qed
  have far: "face_index_array (face_array (g_surface (tri_grid w))
                 ! nat ((rows - 1) * (cols - 1) + (rows - 1 - i) * (cols - 1) + (cols - j))) =
               [(i + 1) * cols - j - cols, (i + 1) * cols - j, (i + 1) * cols - j - cols + 1]"
    if "1 \<le> i \<and> i \<le> rows - 1 \<and> 2 \<le> j \<and> j \<le> cols" for i j
  proof -
    let ?i = "nat (rows - 1 - i)" and ?j = "nat (cols - j)"
    from that have i: "?i < length (rev [1..rows - 1])" and j: "?j < nat (cols - 1)"
      by simp_all
    have "0 \<le> (rows - 1) * (cols - 1)" and "0 \<le> (rows - 1 - i) * (cols - 1)"
      using c r that by simp_all
    then have p: "nat ((rows - 1) * (cols - 1) + (rows - 1 - i) * (cols - 1) + (cols - j)) =
                  length ?near + (?i * nat (cols - 1) + ?j)"
      unfolding len_near using that by (simp add: nat_add_distrib nat_mult_distrib)
    have "?far ! (?i * nat (cols - 1) + ?j) = ?g (rev [1..rows - 1] ! ?i) ! ?j"
      by (rule nth_concat_map_uniform [OF len_g i j])
    moreover have "rev [1..rows - 1] ! ?i = i"
      using that by (subst nth_rev_upto) simp_all
    moreover have "rev [2..cols] ! ?j = j"
      using that by (subst nth_rev_upto) simp_all
    then have "?g i ! ?j = \<lparr>face_index_array =
                               [(i + 1) * cols - j - cols, (i + 1) * cols - j,
                                (i + 1) * cols - j - cols + 1],
                             face_visible = Num 1\<rparr>"
      using j by simp
    ultimately have "?far ! (?i * nat (cols - 1) + ?j) = \<lparr>face_index_array =
                               [(i + 1) * cols - j - cols, (i + 1) * cols - j,
                                (i + 1) * cols - j - cols + 1],
                             face_visible = Num 1\<rparr>"
      by simp
    then show ?thesis
      unfolding fa p nth_append_length_plus by simp
  qed
  have gen: "surface_generate w = tri_grid w" if "draw_mode (g_surface w) = TRI"
    using that by (simp add: surface_generate_def QUAD_def TRI_def)
  have three: "face_index_array (face_array (g_surface (tri_grid w)) ! 0) = [1, 3, 4]"
    if "cols = 3 \<and> rows = 3"
    using near [of 0 0] that by simp
  from len fa near far gen three show ?thesis
    by blast
qed


theorem tri_grid_faces_witness:
  "dim (g_surface (new_world (3, 3) TRI)) = (3, 3) \<and> (2::int) \<le> 3
   \<and> length (face_array (g_surface (tri_grid (new_world (3, 3) TRI)))) = 8
   \<and> face_index_array (face_array (g_surface (tri_grid (new_world (3, 3) TRI))) ! 3) = [5, 7, 8]
   \<and> face_index_array (face_array (g_surface (tri_grid (new_world (3, 3) TRI))) ! 7) = [1, 4, 2]
   \<and> surface_generate (new_world (3, 3) TRI) = tri_grid (new_world (3, 3) TRI)
   \<and> face_index_array (face_array (g_surface (tri_grid (new_world (3, 3) TRI))) ! 0) = [1, 3, 4]"
proof -
  have d: "dim (g_surface (new_world (3, 3) TRI)) = (3, 3)"
    by (simp add: new_world_def)
  have m: "draw_mode (g_surface (new_world (3, 3) TRI)) = TRI"
    by (simp add: new_world_def)
  have b: "(2::int) \<le> 3"
    by simp
  note t = tri_grid_faces [OF d b b]
  have "length (face_array (g_surface (tri_grid (new_world (3, 3) TRI)))) = 8"
    using t [THEN conjunct1] by simp
  moreover
  have "face_index_array (face_array (g_surface (tri_grid (new_world (3, 3) TRI))) ! 3) = [5, 7, 8]"
    using t [THEN conjunct2, THEN conjunct2, THEN conjunct1, rule_format, of 1 1]
    by (simp add: eval_nat_numeral)
  moreover
  have "face_index_array (face_array (g_surface (tri_grid (new_world (3, 3) TRI))) ! 7) = [1, 4, 2]"
    using t [THEN conjunct2, THEN conjunct2, THEN conjunct2, THEN conjunct1, rule_format, of 1 2]
    by (simp add: eval_nat_numeral)
  moreover
  have "surface_generate (new_world (3, 3) TRI) = tri_grid (new_world (3, 3) TRI)"
    using t [THEN conjunct2, THEN conjunct2, THEN conjunct2, THEN conjunct2, THEN conjunct1] m
    by simp
  moreover
  have "face_index_array (face_array (g_surface (tri_grid (new_world (3, 3) TRI))) ! 0) = [1, 3, 4]"
    using t [THEN conjunct2, THEN conjunct2, THEN conjunct2, THEN conjunct2, THEN conjunct2]
    by simp
  ultimately show ?thesis
    using d by simp
qed

section \<open>Applying a mask\<close>

lemma length_apply_each: "length (apply_each m k fs) = length fs"
  by (induction fs arbitrary: k) simp_all

lemma nth_apply_each:
  "n < length fs \<Longrightarrow> apply_each m k fs ! n = (fs ! n)\<lparr>face_visible := array_get m (k + n)\<rparr>"
proof (induction fs arbitrary: k n)
  case Nil
  then show ?case by simp
next
  case (Cons f fs)
  then show ?case by (cases n) simp_all
qed

lemma index_arrays_apply_each:
  "map face_index_array (apply_each m k fs) = map face_index_array fs"
  by (induction fs arbitrary: k) simp_all

lemma visibles_apply_each:
  "map face_visible (apply_each m k fs) = map (array_get m) [k..<k + length fs]"
proof (induction fs arbitrary: k)
  case Nil
  then show ?case by simp
next
  case (Cons f fs)
  have "[k..<k + length (f # fs)] = k # [Suc k..<Suc k + length fs]"
    by (simp add: upt_rec)
  with Cons show ?case by simp
qed

lemma apply_each_twice: "apply_each m k (apply_each m k fs) = apply_each m k fs"
  by (induction fs arbitrary: k) simp_all

text \<open>What \<open>apply_each\<close> gives depends on the faces' index arrays only.\<close>

lemma apply_each_cong:
  "map face_index_array fs = map face_index_array gs \<Longrightarrow> apply_each m k fs = apply_each m k gs"
proof (induction fs arbitrary: k gs)
  case Nil
  then show ?case by simp
next
  case (Cons f fs)
  then obtain g gs' where "gs = g # gs'" by (cases gs) auto
  with Cons show ?case by auto
qed

lemma index_array_hidden_cong:
  assumes "length fs = length gs"
    and "\<forall>k < length fs. face_index_array (fs ! k) = face_index_array (gs ! k)
           \<and> (if truthy (face_visible (fs ! k)) then face_visible (gs ! k) = face_visible (fs ! k)
                else \<not> truthy (face_visible (gs ! k)))"
  shows "index_array (s\<lparr>face_array := fs\<rparr>) = index_array (s\<lparr>face_array := gs\<rparr>)"
proof -
  define z :: "int list" where "z = (if draw_mode s = QUAD then [0, 0, 0, 0] else [0, 0, 0])"
  let ?h = "\<lambda>face. if truthy (face_visible face) then face_index_array face else z"
  have ia: "index_array (s\<lparr>face_array := xs\<rparr>) = concat (map ?h xs)" for xs
    unfolding index_array_def z_def by simp
  have "map ?h fs = map ?h gs"
  proof (rule nth_equalityI)
    show "length (map ?h fs) = length (map ?h gs)" using assms(1) by simp
  next
    fix k assume "k < length (map ?h fs)"
    then have k: "k < length fs" by simp
    with assms(2) have "?h (fs ! k) = ?h (gs ! k)"
      by (auto split: if_splits)
    with k assms(1) show "map ?h fs ! k = map ?h gs ! k" by simp
  qed
  then show ?thesis by (simp only: ia)
qed

text \<open>
  Claim C5.  \<open>Filter.apply\<close> called twice, the mask unchanged in between, leaves the world
  that one call leaves: the same faces with the same visibilities, hence the same index
  array.  A call overwrites every visibility with the mask's element at the face's position
  (\<open>undefined\<close> past the mask's end), whatever the visibility was before.
\<close>

theorem filter_apply_idempotent:
  "filter_apply (filter_apply w) = filter_apply w
   \<and> index_array (g_surface (filter_apply (filter_apply w))) = index_array (g_surface (filter_apply w))
   \<and> map face_visible (face_array (g_surface (filter_apply w))) =
       map (array_get (g_mask w)) [0..<face_count (g_surface w)]"
  by (simp add: filter_apply_def apply_each_twice visibles_apply_each face_count_def)


text \<open>
  Claim C10.  \<open>Filter.apply\<close> has no failing branch: for every world it returns the world
  in which the face array has the length it had, each face keeps its index array, and the
  face at position \<open>k\<close> has the visibility \<open>mask[k]\<close>, which is \<open>undefined\<close> when
  \<open>k\<close> is at or past the mask's length.  Such a face is hidden in the index array, which is
  the one that the mask padded with zeros gives.  Mask elements at or past the face count
  are not read: the mask cut at the face count gives the same surface.
\<close>

theorem filter_apply_any_mask:
  "face_count (g_surface (filter_apply w)) = face_count (g_surface w)
   \<and> g_mask (filter_apply w) = g_mask w
   \<and> (\<forall>k < face_count (g_surface w).
         face_index_array (face_array (g_surface (filter_apply w)) ! k) =
           face_index_array (face_array (g_surface w) ! k)
         \<and> face_visible (face_array (g_surface (filter_apply w)) ! k) =
             (if k < length (g_mask w) then g_mask w ! k else Undefined))
   \<and> (\<forall>k < face_count (g_surface w). length (g_mask w) \<le> k \<longrightarrow>
         \<not> truthy (face_visible (face_array (g_surface (filter_apply w)) ! k)))
   \<and> index_array (g_surface (filter_apply w)) =
       index_array (g_surface (filter_apply
         (w\<lparr>g_mask := g_mask w @ replicate (face_count (g_surface w) - length (g_mask w)) (Num 0)\<rparr>)))
   \<and> g_surface (filter_apply (w\<lparr>g_mask := take (face_count (g_surface w)) (g_mask w)\<rparr>)) =
       g_surface (filter_apply w)"
proof -
  let ?fs = "face_array (g_surface w)"
  let ?n = "face_count (g_surface w)"
  let ?pad = "g_mask w @ replicate (?n - length (g_mask w)) (Num 0)"
  have cnt: "face_count (g_surface (filter_apply w)) = ?n"
    by (simp add: filter_apply_def face_count_def length_apply_each)
  have msk: "g_mask (filter_apply w) = g_mask w"
    by (simp add: filter_apply_def)
  have each: "face_index_array (face_array (g_surface (filter_apply w)) ! k) =
           face_index_array (?fs ! k)
         \<and> face_visible (face_array (g_surface (filter_apply w)) ! k) =
             (if k < length (g_mask w) then g_mask w ! k else Undefined)" if "k < ?n" for k
    using that by (simp add: filter_apply_def face_count_def nth_apply_each array_get_def)
  have hid: "\<not> truthy (face_visible (face_array (g_surface (filter_apply w)) ! k))"
    if "k < ?n" "length (g_mask w) \<le> k" for k
    using each [OF that(1)] that(2) by simp
  have pad: "index_array (g_surface (filter_apply w)) =
       index_array (g_surface (filter_apply (w\<lparr>g_mask := ?pad\<rparr>)))"
  proof -
    have "index_array ((g_surface w)\<lparr>face_array := apply_each (g_mask w) 0 ?fs\<rparr>) =
          index_array ((g_surface w)\<lparr>face_array := apply_each ?pad 0 ?fs\<rparr>)"
    proof (rule index_array_hidden_cong)
      show "length (apply_each (g_mask w) 0 ?fs) = length (apply_each ?pad 0 ?fs)"
        by (simp add: length_apply_each)
    next
      show "\<forall>k < length (apply_each (g_mask w) 0 ?fs).
              face_index_array (apply_each (g_mask w) 0 ?fs ! k) =
                face_index_array (apply_each ?pad 0 ?fs ! k)
              \<and> (if truthy (face_visible (apply_each (g_mask w) 0 ?fs ! k))
                   then face_visible (apply_each ?pad 0 ?fs ! k) =
                          face_visible (apply_each (g_mask w) 0 ?fs ! k)
                   else \<not> truthy (face_visible (apply_each ?pad 0 ?fs ! k)))"
        by (auto simp: length_apply_each nth_apply_each array_get_def nth_append)
    qed
    then show ?thesis by (simp add: filter_apply_def)
  qed
  have tk: "g_surface (filter_apply (w\<lparr>g_mask := take ?n (g_mask w)\<rparr>)) = g_surface (filter_apply w)"
  proof -
    have "apply_each (take ?n (g_mask w)) 0 ?fs = apply_each (g_mask w) 0 ?fs"
    proof (rule nth_equalityI)
      show "length (apply_each (take ?n (g_mask w)) 0 ?fs) = length (apply_each (g_mask w) 0 ?fs)"
        by (simp add: length_apply_each)
    next
      fix k assume "k < length (apply_each (take ?n (g_mask w)) 0 ?fs)"
      then have "k < length ?fs" by (simp add: length_apply_each)
      then show "apply_each (take ?n (g_mask w)) 0 ?fs ! k = apply_each (g_mask w) 0 ?fs ! k"
        by (simp add: nth_apply_each array_get_def face_count_def)
    qed
    then show ?thesis by (simp add: filter_apply_def)
  qed
  from cnt msk each hid pad tk show ?thesis
    by blast
qed


theorem filter_apply_any_mask_witness:
  "(1::nat) < face_count (g_surface ((dim_msg [3, 3] loaded)\<lparr>g_mask := [Num 0]\<rparr>))
   \<and> length (g_mask ((dim_msg [3, 3] loaded)\<lparr>g_mask := [Num 0]\<rparr>)) \<le> 1
   \<and> face_index_array (face_array (g_surface (filter_apply ((dim_msg [3, 3] loaded)\<lparr>g_mask := [Num 0]\<rparr>))) ! 1)
       = [2, 1, 4, 5]
   \<and> face_visible (face_array (g_surface (filter_apply ((dim_msg [3, 3] loaded)\<lparr>g_mask := [Num 0]\<rparr>))) ! 1)
       = Undefined
   \<and> \<not> truthy (face_visible
         (face_array (g_surface (filter_apply ((dim_msg [3, 3] loaded)\<lparr>g_mask := [Num 0]\<rparr>))) ! 1))
   \<and> index_array (g_surface (filter_apply ((dim_msg [3, 3] loaded)\<lparr>g_mask := [Num 0]\<rparr>))) =
       [0, 0, 0, 0, 0, 0, 0, 0, 0, 0, 0, 0, 0, 0, 0, 0]"
proof -
  let ?w = "(dim_msg [3, 3] loaded)\<lparr>g_mask := [Num 0]\<rparr>"
  have n: "(1::nat) < face_count (g_surface ?w)"
    by code_simp
  have m: "length (g_mask ?w) \<le> 1"
    by simp
  have old: "face_index_array (face_array (g_surface ?w) ! 1) = [2, 1, 4, 5]"
    by code_simp
  have padded: "index_array (g_surface (filter_apply
         (?w\<lparr>g_mask := g_mask ?w @ replicate (face_count (g_surface ?w) - length (g_mask ?w)) (Num 0)\<rparr>))) =
       [0, 0, 0, 0, 0, 0, 0, 0, 0, 0, 0, 0, 0, 0, 0, 0]"
    by code_simp
  note t = filter_apply_any_mask [of ?w]
  have "face_index_array (face_array (g_surface (filter_apply ?w)) ! 1) = [2, 1, 4, 5]"
    using t [THEN conjunct2, THEN conjunct2, THEN conjunct1, rule_format, OF n] old by simp
  moreover have "face_visible (face_array (g_surface (filter_apply ?w)) ! 1) = Undefined"
    using t [THEN conjunct2, THEN conjunct2, THEN conjunct1, rule_format, OF n] by simp
  moreover have "\<not> truthy (face_visible (face_array (g_surface (filter_apply ?w)) ! 1))"
    using t [THEN conjunct2, THEN conjunct2, THEN conjunct2, THEN conjunct1, rule_format, OF n m] .
  moreover have "index_array (g_surface (filter_apply ?w)) =
       [0, 0, 0, 0, 0, 0, 0, 0, 0, 0, 0, 0, 0, 0, 0, 0]"
    using t [THEN conjunct2, THEN conjunct2, THEN conjunct2, THEN conjunct2, THEN conjunct1] padded
    by simp
  ultimately show ?thesis
    using n m by blast
qed

section \<open>The index array\<close>

lemma generated_width:
  "f \<in> set (face_array (g_surface (surface_generate w))) \<Longrightarrow>
   length (face_index_array f) = (if draw_mode (g_surface w) = QUAD then 4 else 3)"
  by (auto simp: surface_generate_def quad_grid_face_array tri_grid_face_array)

lemma generated_draw_mode: "draw_mode (g_surface (surface_generate w)) = draw_mode (g_surface w)"
  by (simp add: surface_generate_def quad_grid_def tri_grid_def split: prod.splits)

text \<open>
  Claim C4.  Take a surface whose faces carry the index arrays that \<open>Surface.generate\<close>
  builds for the surface's draw mode, with any visibility flags.  Its index array has
  \<open>face_count * width\<close> elements, \<open>width\<close> being 4 in draw mode \<open>QUAD\<close> and 3 otherwise
  (\<open>TRI\<close>), whichever faces are visible; it is the concatenation, in face order, of the
  index array of each visible face and of as many zeros for each hidden face.
\<close>

theorem index_array_layout:
  assumes gen: "map face_index_array (face_array s) =
                map face_index_array (face_array (g_surface (surface_generate w)))"
    and mode: "draw_mode s = draw_mode (g_surface w)"
  shows "length (index_array s) = face_count s * (if draw_mode s = QUAD then 4 else 3)
       \<and> index_array s =
           concat (map (\<lambda>face. if truthy (face_visible face) then face_index_array face
                                else replicate (length (face_index_array face)) 0)
                     (face_array s))"
proof -
  define width :: nat where "width = (if draw_mode s = QUAD then 4 else 3)"
  define z :: "int list" where "z = (if draw_mode s = QUAD then [0, 0, 0, 0] else [0, 0, 0])"
  have z: "z = replicate width 0"
    by (simp add: z_def width_def eval_nat_numeral)
  have wd: "length (face_index_array f) = width" if "f \<in> set (face_array s)" for f
  proof -
    from that have "face_index_array f \<in> set (map face_index_array (face_array s))"
      by simp
    then obtain g where "g \<in> set (face_array (g_surface (surface_generate w)))"
      and "face_index_array f = face_index_array g"
      unfolding gen by auto
    then show ?thesis
      using generated_width [of g w] mode by (simp add: width_def)
  qed
  let ?h = "\<lambda>face. if truthy (face_visible face) then face_index_array face else z"
  have ia: "index_array s = concat (map ?h (face_array s))"
    unfolding index_array_def z_def by simp
  have "\<forall>f \<in> set (face_array s). length (?h f) = width"
    using wd by (simp add: z)
  then have "length (index_array s) = length (face_array s) * width"
    unfolding ia by (rule length_concat_map_uniform)
  then have len: "length (index_array s) = face_count s * (if draw_mode s = QUAD then 4 else 3)"
    by (simp add: face_count_def width_def)
  have "map ?h (face_array s) =
        map (\<lambda>face. if truthy (face_visible face) then face_index_array face
                     else replicate (length (face_index_array face)) 0) (face_array s)"
    using wd by (simp add: z)
  then have "index_array s =
           concat (map (\<lambda>face. if truthy (face_visible face) then face_index_array face
                                else replicate (length (face_index_array face)) 0)
                     (face_array s))"
    unfolding ia by (rule arg_cong)
  with len show ?thesis by blast
qed

theorem index_array_layout_witness:
  "map face_index_array (face_array (g_surface (list_msg [0, 1, 0, 1] (dim_msg [3, 3] loaded)))) =
     map face_index_array (face_array (g_surface (surface_generate (dim_msg [3, 3] loaded))))
   \<and> draw_mode (g_surface (list_msg [0, 1, 0, 1] (dim_msg [3, 3] loaded))) =
       draw_mode (g_surface (dim_msg [3, 3] loaded))
   \<and> length (index_array (g_surface (list_msg [0, 1, 0, 1] (dim_msg [3, 3] loaded)))) = 16
   \<and> index_array (g_surface (list_msg [0, 1, 0, 1] (dim_msg [3, 3] loaded))) =
       [0, 0, 0, 0, 2, 1, 4, 5, 0, 0, 0, 0, 5, 4, 7, 8]"
proof -
  let ?w = "dim_msg [3, 3] loaded"
  let ?s = "g_surface (list_msg [0, 1, 0, 1] ?w)"
  have g: "map face_index_array (face_array ?s) =
           map face_index_array (face_array (g_surface (surface_generate ?w)))"
    by code_simp
  have m: "draw_mode ?s = draw_mode (g_surface ?w)"
    by code_simp
  have n: "face_count ?s * (if draw_mode ?s = QUAD then 4 else 3) = 16"
    by code_simp
  have v: "concat (map (\<lambda>face. if truthy (face_visible face) then face_index_array face
                                else replicate (length (face_index_array face)) 0)
                     (face_array ?s)) = [0, 0, 0, 0, 2, 1, 4, 5, 0, 0, 0, 0, 5, 4, 7, 8]"
    by code_simp
  note t = index_array_layout [OF g m]
  have "length (index_array ?s) = 16"
    using t [THEN conjunct1] n by simp
  moreover have "index_array ?s = [0, 0, 0, 0, 2, 1, 4, 5, 0, 0, 0, 0, 5, 4, 7, 8]"
    using t [THEN conjunct2] v by simp
  ultimately show ?thesis
    using g m by blast
qed

section \<open>Generating a mask\<close>

lemma length_calls: "length (snd (calls func ws s)) = length ws"
proof (induction ws arbitrary: s)
  case Nil
  then show ?case by simp
next
  case (Cons w ws)
  obtain v s1 where f: "func s w = (v, s1)"
    by (cases "func s w")
  obtain s2 vs where c: "calls func ws s1 = (s2, vs)"
    by (cases "calls func ws s1")
  from Cons [of s1] c have "length vs = length ws"
    by simp
  with f c show ?case
    by simp
qed

lemma calls_append:
  "calls func (ws @ ws') s =
     (case calls func ws s of
        (s1, vs) \<Rightarrow> (case calls func ws' s1 of (s2, vs') \<Rightarrow> (s2, vs @ vs')))"
  by (induction ws arbitrary: s) (simp_all split: prod.splits)

lemma calls_recording:
  "calls (recording func) ws (s, tr) =
     (case calls func ws s of
        (s', vs) \<Rightarrow> ((s', tr @ map (\<lambda>(w, v). (glob_i w, glob_j w, v)) (zip ws vs)), vs))"
proof (induction ws arbitrary: s tr)
  case Nil
  then show ?case by simp
next
  case (Cons w ws)
  then show ?case by (simp add: recording_def split: prod.splits)
qed

lemma gen_sector_near_calls:
  "gen_sector_near func w i j s a =
     (case calls func (map (\<lambda>j. w\<lparr>glob_i := i, glob_j := j\<rparr>) [j..fst (dim (g_surface w)) - 2]) s of
        (s', vs) \<Rightarrow> (max j (fst (dim (g_surface w)) - 1), s', a @ vs))"
proof (induction func w i j s a rule: gen_sector_near.induct)
  case (1 func w i j s a)
  show ?case
  proof (cases "j < fst (dim (g_surface w)) - 1")
    case True
    then have up: "[j..fst (dim (g_surface w)) - 2] = j # [j + 1..fst (dim (g_surface w)) - 2]"
      by (simp add: upto_rec1)
    obtain v s1 where f: "func s (w\<lparr>glob_i := i, glob_j := j\<rparr>) = (v, s1)"
      by (cases "func s (w\<lparr>glob_i := i, glob_j := j\<rparr>)")
    from True f show ?thesis
      by (subst gen_sector_near.simps) (simp add: up 1 [OF True f [symmetric]] split: prod.splits)
  next
    case False
    then show ?thesis by (subst gen_sector_near.simps) simp
  qed
qed


lemma gen_stack_near_calls:
  "gen_stack_near func w i j s a =
     (case calls func
             (concat (map (\<lambda>i. map (\<lambda>j. w\<lparr>glob_i := i, glob_j := j\<rparr>)
                                  [0..fst (dim (g_surface w)) - 2])
                        [i..snd (dim (g_surface w)) - 2])) s of
        (s', vs) \<Rightarrow>
          (max i (snd (dim (g_surface w)) - 1),
           (if i < snd (dim (g_surface w)) - 1 then max 0 (fst (dim (g_surface w)) - 1) else j),
           s', a @ vs))"
proof (induction func w i j s a rule: gen_stack_near.induct)
  case (1 func w i j s a)
  let ?row = "\<lambda>i. map (\<lambda>j. w\<lparr>glob_i := i, glob_j := j\<rparr>) [0..fst (dim (g_surface w)) - 2]"
  show ?case
  proof (cases "i < snd (dim (g_surface w)) - 1")
    case True
    then have up: "[i..snd (dim (g_surface w)) - 2] = i # [i + 1..snd (dim (g_surface w)) - 2]"
      by (simp add: upto_rec1)
    obtain s1 vs1 where c1: "calls func (?row i) s = (s1, vs1)"
      by (cases "calls func (?row i) s")
    have sec: "gen_sector_near func w i 0 s a = (max 0 (fst (dim (g_surface w)) - 1), s1, a @ vs1)"
      by (simp add: gen_sector_near_calls c1)
    note IH = 1 [OF True sec [symmetric] refl]
    from True show ?thesis
      by (subst gen_stack_near.simps)
         (simp add: up sec IH calls_append c1 split: prod.splits)
  next
    case False
    then show ?thesis by (subst gen_stack_near.simps) simp
  qed
qed

lemma gen_sector_far_calls:
  "gen_sector_far func w i j s a =
     (case calls func (map (\<lambda>j. w\<lparr>glob_i := i, glob_j := j\<rparr>) (rev [2..j])) s of
        (s', vs) \<Rightarrow> (min j 1, s', a @ vs))"
proof (induction func w i j s a rule: gen_sector_far.induct)
  case (1 func w i j s a)
  show ?case
  proof (cases "j > 1")
    case True
    then have up: "rev [2..j] = j # rev [2..j - 1]"
      by (simp add: rev_upto_step)
    obtain v s1 where f: "func s (w\<lparr>glob_i := i, glob_j := j\<rparr>) = (v, s1)"
      by (cases "func s (w\<lparr>glob_i := i, glob_j := j\<rparr>)")
    from True f show ?thesis
      by (subst gen_sector_far.simps) (simp add: up 1 [OF True f [symmetric]] split: prod.splits)
  next
    case False
    then show ?thesis by (subst gen_sector_far.simps) simp
  qed
qed

lemma gen_stack_far_calls:
  "gen_stack_far func w i j s a =
     (case calls func
             (concat (map (\<lambda>i. map (\<lambda>j. w\<lparr>glob_i := i, glob_j := j\<rparr>)
                                  (rev [2..fst (dim (g_surface w))]))
                        (rev [1..i]))) s of
        (s', vs) \<Rightarrow>
          (min i 0, (if i > 0 then min (fst (dim (g_surface w))) 1 else j), s', a @ vs))"
proof (induction func w i j s a rule: gen_stack_far.induct)
  case (1 func w i j s a)
  let ?row = "\<lambda>i. map (\<lambda>j. w\<lparr>glob_i := i, glob_j := j\<rparr>) (rev [2..fst (dim (g_surface w))])"
  show ?case
  proof (cases "i > 0")
    case True
    then have up: "rev [1..i] = i # rev [1..i - 1]"
      by (simp add: rev_upto_step)
    obtain s1 vs1 where c1: "calls func (?row i) s = (s1, vs1)"
      by (cases "calls func (?row i) s")
    have sec: "gen_sector_far func w i (fst (dim (g_surface w))) s a =
                 (min (fst (dim (g_surface w))) 1, s1, a @ vs1)"
      by (simp add: gen_sector_far_calls c1)
    note IH = 1 [OF True sec [symmetric] refl]
    from True show ?thesis
      by (subst gen_stack_far.simps)
         (simp add: up sec IH calls_append c1 split: prod.splits)
  next
    case False
    then show ?thesis by (subst gen_stack_far.simps) simp
  qed
qed

lemma gen_flat_calls:
  "gen_flat func w i s a =
     (case calls func (map (\<lambda>i. w\<lparr>glob_i := i\<rparr>) [i..int (face_count (g_surface w)) - 1]) s of
        (s', vs) \<Rightarrow> (max i (int (face_count (g_surface w))), s', a @ vs))"
proof (induction func w i s a rule: gen_flat.induct)
  case (1 func w i s a)
  show ?case
  proof (cases "i < int (face_count (g_surface w))")
    case True
    then have up: "[i..int (face_count (g_surface w)) - 1] =
                   i # [i + 1..int (face_count (g_surface w)) - 1]"
      by (simp add: upto_rec1)
    obtain v s1 where f: "func s (w\<lparr>glob_i := i\<rparr>) = (v, s1)"
      by (cases "func s (w\<lparr>glob_i := i\<rparr>)")
    from True f show ?thesis
      by (subst gen_flat.simps) (simp add: up 1 [OF True f [symmetric]] split: prod.splits)
  next
    case False
    then show ?thesis by (subst gen_flat.simps) simp
  qed
qed


lemma filter_generate_flat:
  "filter_generate func False s w =
     (case calls func (map (\<lambda>i. w\<lparr>glob_i := i\<rparr>) [0..int (face_count (g_surface w)) - 1]) s of
        (s', vs) \<Rightarrow>
          (filter_apply (w\<lparr>glob_i := int (face_count (g_surface w)), glob_j := glob_j w, g_mask := vs\<rparr>),
           s'))"
  by (simp add: filter_generate_def gen_flat_calls split: prod.splits)

lemma calls_stateless:
  assumes "\<And>s w. func s w = (g w, s)"
  shows "calls func ws s = (s, map g ws)"
  by (induction ws) (simp_all add: assms)

lemma mask_filter_apply: "g_mask (filter_apply w) = g_mask w"
  by (simp add: filter_apply_def)

lemma face_count_filter_apply: "face_count (g_surface (filter_apply w)) = face_count (g_surface w)"
  by (simp add: filter_apply_def face_count_def length_apply_each)

lemma map_int_upt: "map int [0..<n] = [0..int n - 1]"
proof (rule nth_equalityI)
  show "length (map int [0..<n]) = length [0..int n - 1]" by simp
next
  fix k assume "k < length (map int [0..<n])"
  then show "map int [0..<n] ! k = [0..int n - 1] ! k" by simp
qed

lemma map_zip_left:
  "length ws = length vs \<Longrightarrow> map (\<lambda>(w, v). f w) (zip ws vs) = map f ws"
  by (induction ws vs rule: list_induct2) simp_all

lemma map_zip_right:
  "length ws = length vs \<Longrightarrow> map (\<lambda>(w, v). f v) (zip ws vs) = map f vs"
  by (induction ws vs rule: list_induct2) simp_all

lemma js_rem_pos: "0 \<le> a \<Longrightarrow> 0 < b \<Longrightarrow> js_rem a b = Some (a mod b)"
  by (cases "a = 0") (simp_all add: js_rem_def)

lemma concat_map_product:
  "concat (map (\<lambda>i. map (f i) ys) xs) = map (\<lambda>(i, j). f i j) (List.product xs ys)"
  by (induction xs) simp_all

lemma length_near_positions:
  "2 \<le> cols \<Longrightarrow> 2 \<le> rows \<Longrightarrow>
   length (List.product [0..rows - 2] [0..cols - 2]) = nat ((rows - 1) * (cols - 1))"
  by (simp add: nat_mult_distrib)

lemma length_far_positions:
  "2 \<le> cols \<Longrightarrow> 2 \<le> rows \<Longrightarrow>
   length (List.product (rev [1..rows - 1]) (rev [2..cols])) = nat ((rows - 1) * (cols - 1))"
  by (simp add: nat_mult_distrib)

lemma filter_generate_near:
  assumes "draw_mode (g_surface w) \<noteq> TRI"
  shows "filter_generate func True s w =
     (case calls func
             (map (\<lambda>(i, j). w\<lparr>glob_i := i, glob_j := j\<rparr>)
                (List.product [0..snd (dim (g_surface w)) - 2] [0..fst (dim (g_surface w)) - 2])) s of
        (s', vs) \<Rightarrow>
          (filter_apply
             (w\<lparr>glob_i := max 0 (snd (dim (g_surface w)) - 1),
                glob_j := (if 0 < snd (dim (g_surface w)) - 1
                           then max 0 (fst (dim (g_surface w)) - 1) else glob_j w),
                g_mask := vs\<rparr>),
           s'))"
  using assms
  by (simp add: filter_generate_def gen_stack_near_calls concat_map_product split: prod.splits)

lemma filter_generate_near_far:
  assumes "draw_mode (g_surface w) = TRI"
  shows "filter_generate func True s w =
     (case calls func
             (map (\<lambda>(i, j). w\<lparr>glob_i := i, glob_j := j\<rparr>)
                (List.product [0..snd (dim (g_surface w)) - 2] [0..fst (dim (g_surface w)) - 2]
                 @ List.product (rev [1..snd (dim (g_surface w)) - 1])
                                (rev [2..fst (dim (g_surface w))]))) s of
        (s', vs) \<Rightarrow>
          (filter_apply
             (w\<lparr>glob_i := min (snd (dim (g_surface w)) - 1) 0,
                glob_j := (if 0 < snd (dim (g_surface w)) - 1
                           then min (fst (dim (g_surface w))) 1 else glob_j w),
                g_mask := vs\<rparr>),
           s'))"
  using assms
  by (simp add: filter_generate_def gen_stack_near_calls gen_stack_far_calls concat_map_product
        calls_append split: prod.splits)


lemma recorded_run:
  assumes "calls (recording func) (map (\<lambda>(i, j). w\<lparr>glob_i := i, glob_j := j\<rparr>) P) (s, []) =
             ((s', tr), vs)"
  shows "calls func (map (\<lambda>(i, j). w\<lparr>glob_i := i, glob_j := j\<rparr>) P) s = (s', vs)
       \<and> tr = map (\<lambda>((i, j), v). (i, j, v)) (zip P vs)
       \<and> length vs = length P"
proof -
  let ?ws = "map (\<lambda>(i, j). w\<lparr>glob_i := i, glob_j := j\<rparr>) P"
  obtain s1 vs1 where c: "calls func ?ws s = (s1, vs1)"
    by (cases "calls func ?ws s")
  from assms have "(s1, map (\<lambda>(w, v). (glob_i w, glob_j w, v)) (zip ?ws vs1)) = (s', tr)"
    and "vs1 = vs"
    by (auto simp: calls_recording c)
  then have "s1 = s'" and "vs1 = vs"
    and tr: "tr = map (\<lambda>(w, v). (glob_i w, glob_j w, v)) (zip ?ws vs1)"
    by auto
  moreover have "length vs1 = length P"
    using length_calls [of func ?ws s] c by simp
  moreover have "map (\<lambda>(w, v). (glob_i w, glob_j w, v)) (zip ?ws vs1) =
                 map (\<lambda>((i, j), v). (i, j, v)) (zip P vs1)"
    by (simp add: zip_map1 split_def)
  ultimately show ?thesis
    using c by simp
qed

lemma map_array_get: "map (array_get m) [0..<length m] = m"
proof -
  have "map (array_get m) [0..<length m] = map ((!) m) [0..<length m]"
    by (rule map_cong) (simp_all add: array_get_def)
  then show ?thesis by (simp add: map_nth)
qed

lemma aligned:
  assumes tr: "tr = map (\<lambda>((i, j), v). (i, j, v)) (zip P vs)" and len: "length vs = length P"
  shows "length tr = length P"
    and "map (\<lambda>(i, j, v). v) tr = vs"
    and "map (\<lambda>(i, j, v). F i j) tr = map (\<lambda>(i, j). F i j) P"
proof -
  show "length tr = length P"
    by (simp add: tr len)
  have "map (\<lambda>(i, j, v). v) tr = map (\<lambda>(p, v). v) (zip P vs)"
    by (simp add: tr split_def)
  also have "\<dots> = vs"
    using map_zip_right [of P vs "\<lambda>v. v"] len by simp
  finally show "map (\<lambda>(i, j, v). v) tr = vs" .
  have "map (\<lambda>(i, j, v). F i j) tr = map (\<lambda>(p, v). (\<lambda>(i, j). F i j) p) (zip P vs)"
    by (simp add: tr split_def)
  also have "\<dots> = map (\<lambda>(i, j). F i j) P"
    using len by (intro map_zip_left) simp
  finally show "map (\<lambda>(i, j, v). F i j) tr = map (\<lambda>(i, j). F i j) P" .
qed

lemma aligned_halves:
  assumes tr: "tr = map (\<lambda>((i, j), v). (i, j, v)) (zip (P @ Q) vs)"
    and len: "length vs = length P + length Q"
  shows "map (\<lambda>(i, j, v). F i j) (take (length P) tr) = map (\<lambda>(i, j). F i j) P"
    and "map (\<lambda>(i, j, v). G i j) (drop (length P) tr) = map (\<lambda>(i, j). G i j) Q"
proof -
  have t: "take (length P) tr = map (\<lambda>((i, j), v). (i, j, v)) (zip P (take (length P) vs))"
    by (simp add: tr take_map take_zip)
  have d: "drop (length P) tr = map (\<lambda>((i, j), v). (i, j, v)) (zip Q (drop (length P) vs))"
    by (simp add: tr drop_map drop_zip)
  show "map (\<lambda>(i, j, v). F i j) (take (length P) tr) = map (\<lambda>(i, j). F i j) P"
    by (rule aligned(3) [OF t]) (simp add: len)
  show "map (\<lambda>(i, j, v). G i j) (drop (length P) tr) = map (\<lambda>(i, j). G i j) Q"
    by (rule aligned(3) [OF d]) (simp add: len)
qed

lemma quad_grid_index_arrays:
  "map face_index_array (face_array (g_surface (quad_grid w))) =
     map (\<lambda>(i, j). [i * fst (dim (g_surface w)) + j + 1, i * fst (dim (g_surface w)) + j,
                     i * fst (dim (g_surface w)) + j + fst (dim (g_surface w)),
                     i * fst (dim (g_surface w)) + j + fst (dim (g_surface w)) + 1])
       (List.product [0..snd (dim (g_surface w)) - 2] [0..fst (dim (g_surface w)) - 2])"
  by (simp add: quad_grid_face_array concat_map_product o_def split_def)

lemma tri_grid_index_arrays:
  "map face_index_array (face_array (g_surface (tri_grid w))) =
     map (\<lambda>(i, j). [i * fst (dim (g_surface w)) + 1 + j,
                     i * fst (dim (g_surface w)) + 1 + j + fst (dim (g_surface w)) - 1,
                     i * fst (dim (g_surface w)) + 1 + j + fst (dim (g_surface w))])
       (List.product [0..snd (dim (g_surface w)) - 2] [0..fst (dim (g_surface w)) - 2])
     @ map (\<lambda>(i, j). [(i + 1) * fst (dim (g_surface w)) - j - fst (dim (g_surface w)),
                       (i + 1) * fst (dim (g_surface w)) - j,
                       (i + 1) * fst (dim (g_surface w)) - j - fst (dim (g_surface w)) + 1])
       (List.product (rev [1..snd (dim (g_surface w)) - 1]) (rev [2..fst (dim (g_surface w))]))"
  by (simp add: tri_grid_face_array concat_map_product o_def split_def)


text \<open>
  Claim C3.  Take a surface of dimension \<open>(cols, rows)\<close>, \<open>cols \<ge> 2\<close> and \<open>rows \<ge> 2\<close>, whose
  faces carry the index arrays that \<open>Surface.generate\<close> builds for its draw mode, and run
  \<open>Filter.generate(func, true)\<close> with \<open>func\<close> wrapped in a recorder.  In draw mode \<open>QUAD\<close> or
  \<open>TRI\<close> the wrapper changes nothing of the outcome, \<open>func\<close> is invoked \<open>face_count\<close> times,
  the mask has that length and holds the values returned, in order, and each face has the
  visibility that the mask holds at the face's position.  In draw mode \<open>QUAD\<close> the
  invocations are \<open>(rows - 1) * (cols - 1)\<close>, at \<open>i = 0 .. rows - 2\<close>, \<open>j = 0 .. cols - 2\<close>; in
  draw mode \<open>TRI\<close> as many follow, at \<open>i = rows - 1\<close> down to \<open>1\<close>, \<open>j = cols\<close> down to \<open>2\<close>.
  The face at a position has the index array that the grid's formula gives for the
  counters of the invocation at that position.
\<close>

theorem filter_generate_in_face_order:
  assumes d: "dim (g_surface w) = (cols, rows)" and c: "2 \<le> cols" and r: "2 \<le> rows"
    and g: "map face_index_array (face_array (g_surface w)) =
            map face_index_array (face_array (g_surface (surface_generate w)))"
    and run: "filter_generate (recording func) True (s, []) w = (w', (s', tr))"
  shows "(draw_mode (g_surface w) = QUAD \<or> draw_mode (g_surface w) = TRI \<longrightarrow>
            filter_generate func True s w = (w', s')
          \<and> length tr = face_count (g_surface w)
          \<and> face_count (g_surface w') = face_count (g_surface w)
          \<and> length (g_mask w') = face_count (g_surface w)
          \<and> g_mask w' = map (\<lambda>(i, j, v). v) tr
          \<and> map face_visible (face_array (g_surface w')) = g_mask w')
       \<and> (draw_mode (g_surface w) = QUAD \<longrightarrow>
            length tr = nat ((rows - 1) * (cols - 1))
          \<and> map (\<lambda>(i, j, v). (i, j)) tr = List.product [0..rows - 2] [0..cols - 2]
          \<and> map face_index_array (face_array (g_surface w')) =
              map (\<lambda>(i, j, v). [i * cols + j + 1, i * cols + j,
                                 i * cols + j + cols, i * cols + j + cols + 1]) tr)
       \<and> (draw_mode (g_surface w) = TRI \<longrightarrow>
            length tr = 2 * nat ((rows - 1) * (cols - 1))
          \<and> map (\<lambda>(i, j, v). (i, j)) tr =
              List.product [0..rows - 2] [0..cols - 2]
              @ List.product (rev [1..rows - 1]) (rev [2..cols])
          \<and> map face_index_array (face_array (g_surface w')) =
              map (\<lambda>(i, j, v). [i * cols + 1 + j, i * cols + 1 + j + cols - 1,
                                 i * cols + 1 + j + cols])
                (take (nat ((rows - 1) * (cols - 1))) tr)
              @ map (\<lambda>(i, j, v). [(i + 1) * cols - j - cols, (i + 1) * cols - j,
                                   (i + 1) * cols - j - cols + 1])
                  (drop (nat ((rows - 1) * (cols - 1))) tr))"
proof -
  let ?n = "nat ((rows - 1) * (cols - 1))"
  let ?near = "List.product [0..rows - 2] [0..cols - 2]"
  let ?far = "List.product (rev [1..rows - 1]) (rev [2..cols])"
  let ?Q = "\<lambda>i j. [i * cols + j + 1, i * cols + j, i * cols + j + cols, i * cols + j + cols + 1]"
  let ?T1 = "\<lambda>i j. [i * cols + 1 + j, i * cols + 1 + j + cols - 1, i * cols + 1 + j + cols]"
  let ?T2 = "\<lambda>i j. [(i + 1) * cols - j - cols, (i + 1) * cols - j, (i + 1) * cols - j - cols + 1]"
  have ln: "length ?near = ?n" and lf: "length ?far = ?n"
    using c r by (simp_all only: length_near_positions length_far_positions)
  have quad: ?thesis if q: "draw_mode (g_surface w) = QUAD"
  proof -
    have nt: "draw_mode (g_surface w) \<noteq> TRI"
      using q by (simp add: QUAD_def TRI_def)
    let ?ws = "map (\<lambda>(i, j). w\<lparr>glob_i := i, glob_j := j\<rparr>) ?near"
    obtain st vs where cr: "calls (recording func) ?ws (s, []) = (st, vs)"
      by (cases "calls (recording func) ?ws (s, [])")
    let ?w0 = "w\<lparr>glob_i := max 0 (rows - 1),
                  glob_j := (if 0 < rows - 1 then max 0 (cols - 1) else glob_j w),
                  g_mask := vs\<rparr>"
    note fg = filter_generate_near [OF nt, unfolded d fst_conv snd_conv]
    have "filter_generate (recording func) True (s, []) w = (filter_apply ?w0, st)"
      by (simp only: fg cr prod.case)
    with run have st: "st = (s', tr)" and w': "w' = filter_apply ?w0"
      by auto
    note rr = recorded_run [OF cr [unfolded st]]
    from rr have cf: "calls func ?ws s = (s', vs)"
      and tr: "tr = map (\<lambda>((i, j), v). (i, j, v)) (zip ?near vs)"
      and lv: "length vs = length ?near"
      by simp_all
    have same: "filter_generate func True s w = (w', s')"
      by (simp only: fg cf prod.case w')
    have gen: "map face_index_array (face_array (g_surface w)) = map (\<lambda>(i, j). ?Q i j) ?near"
      unfolding g using q by (simp add: surface_generate_def quad_grid_index_arrays d)
    then have "length (map face_index_array (face_array (g_surface w))) =
               length (map (\<lambda>(i, j). ?Q i j) ?near)"
      by (rule arg_cong)
    then have fc: "face_count (g_surface w) = ?n"
      unfolding face_count_def length_map ln .
    have ltr: "length tr = ?n"
      using aligned(1) [OF tr lv] ln by simp
    have m: "g_mask w' = vs"
      by (simp add: w' mask_filter_apply)
    have fa: "face_array (g_surface w') = apply_each vs 0 (face_array (g_surface w))"
      by (simp add: w' filter_apply_def)
    have fc': "face_count (g_surface w') = face_count (g_surface w)"
      by (simp add: face_count_def fa length_apply_each)
    have mtr: "g_mask w' = map (\<lambda>(i, j, v). v) tr"
      using aligned(2) [OF tr lv] m by simp
    have lvn: "length vs = length (face_array (g_surface w))"
      using lv ln fc by (simp add: face_count_def)
    have vis: "map face_visible (face_array (g_surface w')) = g_mask w'"
      unfolding fa m visibles_apply_each
      using map_array_get [of vs] lvn by simp
    have idx: "map face_index_array (face_array (g_surface w')) = map (\<lambda>(i, j, v). ?Q i j) tr"
      unfolding fa index_arrays_apply_each gen
      using aligned(3) [OF tr lv, of ?Q] by simp
    have seq: "map (\<lambda>(i, j, v). (i, j)) tr = ?near"
      using aligned(3) [OF tr lv, of Pair] by simp
    from same ltr fc fc' m lv ln mtr vis idx seq nt show ?thesis
      by simp
  qed
  have tri: ?thesis if t: "draw_mode (g_surface w) = TRI"
  proof -
    have nq: "draw_mode (g_surface w) \<noteq> QUAD"
      using t by (simp add: QUAD_def TRI_def)
    let ?ws = "map (\<lambda>(i, j). w\<lparr>glob_i := i, glob_j := j\<rparr>) (?near @ ?far)"
    obtain st vs where cr: "calls (recording func) ?ws (s, []) = (st, vs)"
      by (cases "calls (recording func) ?ws (s, [])")
    let ?w0 = "w\<lparr>glob_i := min (rows - 1) 0,
                  glob_j := (if 0 < rows - 1 then min cols 1 else glob_j w),
                  g_mask := vs\<rparr>"
    note fg = filter_generate_near_far [OF t, unfolded d fst_conv snd_conv]
    have "filter_generate (recording func) True (s, []) w = (filter_apply ?w0, st)"
      by (simp only: fg cr prod.case)
    with run have st: "st = (s', tr)" and w': "w' = filter_apply ?w0"
      by auto
    note rr = recorded_run [OF cr [unfolded st]]
    from rr have cf: "calls func ?ws s = (s', vs)"
      and tr: "tr = map (\<lambda>((i, j), v). (i, j, v)) (zip (?near @ ?far) vs)"
      and lv: "length vs = length (?near @ ?far)"
      by simp_all
    have lv2: "length vs = length ?near + length ?far"
      using lv by simp
    have same: "filter_generate func True s w = (w', s')"
      by (simp only: fg cf prod.case w')
    have gen: "map face_index_array (face_array (g_surface w)) =
               map (\<lambda>(i, j). ?T1 i j) ?near @ map (\<lambda>(i, j). ?T2 i j) ?far"
      unfolding g using nq by (simp add: surface_generate_def tri_grid_index_arrays d)
    then have "length (map face_index_array (face_array (g_surface w))) =
               length (map (\<lambda>(i, j). ?T1 i j) ?near @ map (\<lambda>(i, j). ?T2 i j) ?far)"
      by (rule arg_cong)
    then have fc: "face_count (g_surface w) = 2 * ?n"
      unfolding face_count_def length_map length_append ln lf by simp
    have ltr: "length tr = 2 * ?n"
      using aligned(1) [OF tr lv] ln lf by simp
    have m: "g_mask w' = vs"
      by (simp add: w' mask_filter_apply)
    have fa: "face_array (g_surface w') = apply_each vs 0 (face_array (g_surface w))"
      by (simp add: w' filter_apply_def)
    have fc': "face_count (g_surface w') = face_count (g_surface w)"
      by (simp add: face_count_def fa length_apply_each)
    have mtr: "g_mask w' = map (\<lambda>(i, j, v). v) tr"
      using aligned(2) [OF tr lv] m by simp
    have lvn: "length vs = length (face_array (g_surface w))"
      using lv2 ln lf fc by (simp add: face_count_def)
    have vis: "map face_visible (face_array (g_surface w')) = g_mask w'"
      unfolding fa m visibles_apply_each
      using map_array_get [of vs] lvn by simp
    have idx: "map face_index_array (face_array (g_surface w')) =
               map (\<lambda>(i, j, v). ?T1 i j) (take ?n tr) @ map (\<lambda>(i, j, v). ?T2 i j) (drop ?n tr)"
      unfolding fa index_arrays_apply_each gen
      using aligned_halves(1) [OF tr lv2, of ?T1] aligned_halves(2) [OF tr lv2, of ?T2] ln
      by simp
    have seq: "map (\<lambda>(i, j, v). (i, j)) tr = ?near @ ?far"
      using aligned(3) [OF tr lv, of Pair] by simp
    from same ltr fc fc' m lv2 ln lf mtr vis idx seq nq show ?thesis
      by simp
  qed
  show ?thesis
  proof (cases "draw_mode (g_surface w) = QUAD")
    case True
    then show ?thesis by (rule quad)
  next
    case nq: False
    show ?thesis
    proof (cases "draw_mode (g_surface w) = TRI")
      case True
      then show ?thesis by (rule tri)
    next
      case False
      with nq show ?thesis by simp
    qed
  qed
qed


theorem filter_generate_in_face_order_witness:
  "dim (g_surface (draw_mode_msg ''triangles'' (dim_msg [3, 3] loaded))) = (3, 3)
   \<and> (2::int) \<le> 3
   \<and> map face_index_array (face_array (g_surface (draw_mode_msg ''triangles'' (dim_msg [3, 3] loaded)))) =
       map face_index_array (face_array (g_surface (surface_generate
         (draw_mode_msg ''triangles'' (dim_msg [3, 3] loaded)))))
   \<and> draw_mode (g_surface (draw_mode_msg ''triangles'' (dim_msg [3, 3] loaded))) = TRI
   \<and> filter_generate (ring_func 2) True () (draw_mode_msg ''triangles'' (dim_msg [3, 3] loaded)) =
       (fst (filter_generate (recording (ring_func 2)) True ((), [])
               (draw_mode_msg ''triangles'' (dim_msg [3, 3] loaded))), ())
   \<and> length (snd (snd (filter_generate (recording (ring_func 2)) True ((), [])
               (draw_mode_msg ''triangles'' (dim_msg [3, 3] loaded))))) = 8
   \<and> map (\<lambda>(i, j, v). (i, j)) (snd (snd (filter_generate (recording (ring_func 2)) True ((), [])
               (draw_mode_msg ''triangles'' (dim_msg [3, 3] loaded))))) =
       [(0, 0), (0, 1), (1, 0), (1, 1), (2, 3), (2, 2), (1, 3), (1, 2)]
   \<and> map face_visible (face_array (g_surface (fst (filter_generate (recording (ring_func 2)) True ((), [])
               (draw_mode_msg ''triangles'' (dim_msg [3, 3] loaded)))))) =
       [Bool False, Bool False, Bool True, Bool True, Bool False, Bool False, Bool True, Bool True]"
proof -
  let ?w = "draw_mode_msg ''triangles'' (dim_msg [3, 3] loaded)"
  let ?X = "filter_generate (recording (ring_func 2)) True ((), []) ?w"
  have d: "dim (g_surface ?w) = (3, 3)"
    by code_simp
  have b: "(2::int) \<le> 3"
    by simp
  have g: "map face_index_array (face_array (g_surface ?w)) =
           map face_index_array (face_array (g_surface (surface_generate ?w)))"
    by code_simp
  have t: "draw_mode (g_surface ?w) = TRI"
    by code_simp
  have run: "?X = (fst ?X, ((), snd (snd ?X)))"
    by (simp add: prod_eq_iff)
  have n: "face_count (g_surface ?w) = 8"
    by code_simp
  have p: "List.product [0..3 - 2] [0..3 - 2] @ List.product (rev [1..3 - 1]) (rev [2..3]) =
           [(0, 0), (0, 1), (1, 0), (1, 1), (2, 3), (2, 2), (1, 3), (1, 2::int)]"
    by code_simp
  have m: "g_mask (fst ?X) =
           [Bool False, Bool False, Bool True, Bool True, Bool False, Bool False, Bool True, Bool True]"
    by code_simp
  note th = filter_generate_in_face_order [OF d b b g run]
  from th t have "filter_generate (ring_func 2) True () ?w = (fst ?X, ())"
    by blast
  moreover from th t n have "length (snd (snd ?X)) = 8"
    by simp
  moreover from th t p have "map (\<lambda>(i, j, v). (i, j)) (snd (snd ?X)) =
       [(0, 0), (0, 1), (1, 0), (1, 1), (2, 3), (2, 2), (1, 3), (1, 2)]"
    by simp
  moreover from th t m have "map face_visible (face_array (g_surface (fst ?X))) =
       [Bool False, Bool False, Bool True, Bool True, Bool False, Bool False, Bool True, Bool True]"
    by simp
  ultimately show ?thesis
    using d g t by simp
qed

text \<open>
  Claim C9.  \<open>spiral\<close> runs the traversal that is not in face order: the mask has
  \<open>face_count\<close> elements, the invocation at position \<open>k\<close> finds \<open>i = k\<close>, and the element at
  position \<open>k\<close> is 0 if \<open>k < cols * (k % rows)\<close> and 1 otherwise (1 when \<open>rows\<close> is 0,
  where the remainder is \<open>NaN\<close>); for \<open>rows > 0\<close> the remainder is \<open>k mod rows\<close>.
\<close>

theorem spiral_mask:
  assumes d: "dim (g_surface w) = (cols, rows)"
  shows "length (g_mask (spiral w)) = face_count (g_surface w)
       \<and> face_count (g_surface (spiral w)) = face_count (g_surface w)
       \<and> map fst (snd (snd (filter_generate (recording spiral_func) False ((), []) w))) =
           map int [0..<face_count (g_surface w)]
       \<and> (\<forall>k < face_count (g_surface w).
             g_mask (spiral w) ! k =
               (case js_rem (int k) rows of
                  None \<Rightarrow> Num 1
                | Some r \<Rightarrow> if int k < cols * r then Num 0 else Num 1))
       \<and> (0 < rows \<longrightarrow>
            (\<forall>k < face_count (g_surface w).
               g_mask (spiral w) ! k = (if int k < cols * (int k mod rows) then Num 0 else Num 1)))"
proof -
  let ?n = "face_count (g_surface w)"
  let ?ws = "map (\<lambda>i. w\<lparr>glob_i := i\<rparr>) [0..int ?n - 1]"
  let ?g = "\<lambda>w'. fst (spiral_func () w')"
  have sl: "spiral_func s w' = (?g w', s)" for s w'
    by (simp add: spiral_func_def split: option.splits)
  have c: "calls spiral_func ?ws () = ((), map ?g ?ws)"
    by (rule calls_stateless [of spiral_func ?g, OF sl])
  have m: "g_mask (spiral w) = map ?g ?ws"
    by (simp add: spiral_def filter_generate_flat c mask_filter_apply)
  have len: "length (g_mask (spiral w)) = ?n"
    unfolding m by simp
  have cnt: "face_count (g_surface (spiral w)) = ?n"
    by (simp add: spiral_def filter_generate_flat c face_count_filter_apply)
  have tr: "map fst (snd (snd (filter_generate (recording spiral_func) False ((), []) w))) =
           map int [0..<?n]"
  proof -
    have "map fst (map (\<lambda>(w', v). (glob_i w', glob_j w', v)) (zip ?ws (map ?g ?ws))) =
          map (\<lambda>(w', v). glob_i w') (zip ?ws (map ?g ?ws))"
      by (simp add: split_def)
    also have "\<dots> = map glob_i ?ws"
      by (rule map_zip_left) simp
    also have "\<dots> = [0..int ?n - 1]"
      by (simp add: o_def)
    finally show ?thesis
      by (simp add: filter_generate_flat calls_recording c map_int_upt)
  qed
  have each: "g_mask (spiral w) ! k =
               (case js_rem (int k) rows of
                  None \<Rightarrow> Num 1
                | Some r \<Rightarrow> if int k < cols * r then Num 0 else Num 1)" if "k < ?n" for k
  proof -
    from that have "[0..int ?n - 1] ! k = int k" by simp
    with that show ?thesis
      unfolding m by (simp add: spiral_func_def d split: option.splits)
  qed
  have pos: "g_mask (spiral w) ! k = (if int k < cols * (int k mod rows) then Num 0 else Num 1)"
    if "0 < rows" "k < ?n" for k
    using each [OF that(2)] that(1) by (simp add: js_rem_pos)
  from len cnt tr each pos show ?thesis
    by blast
qed

theorem spiral_mask_witness:
  "dim (g_surface (dim_msg [4, 3] loaded)) = (4, 3)
   \<and> (0::int) < 3
   \<and> (5::nat) < face_count (g_surface (dim_msg [4, 3] loaded))
   \<and> length (g_mask (spiral (dim_msg [4, 3] loaded))) = 6
   \<and> g_mask (spiral (dim_msg [4, 3] loaded)) ! 5 = Num 0
   \<and> map fst (snd (snd (filter_generate (recording spiral_func) False ((), []) (dim_msg [4, 3] loaded)))) =
       [0, 1, 2, 3, 4, 5]"
proof -
  let ?w = "dim_msg [4, 3] loaded"
  have d: "dim (g_surface ?w) = (4, 3)"
    by code_simp
  have r: "(0::int) < 3"
    by simp
  have n: "face_count (g_surface ?w) = 6"
    by code_simp
  then have k: "(5::nat) < face_count (g_surface ?w)"
    by simp
  note th = spiral_mask [OF d]
  have "length (g_mask (spiral ?w)) = 6"
    using th [THEN conjunct1] n by simp
  moreover have "g_mask (spiral ?w) ! 5 = Num 0"
    using th [THEN conjunct2, THEN conjunct2, THEN conjunct2, THEN conjunct2, rule_format, OF r k]
    by simp
  moreover have "map fst (snd (snd (filter_generate (recording spiral_func) False ((), []) ?w))) =
       [0, 1, 2, 3, 4, 5]"
    using th [THEN conjunct2, THEN conjunct2, THEN conjunct1] n
    by (simp add: upt_rec)
  ultimately show ?thesis
    using d k by simp
qed

section \<open>The reverse message\<close>

lemma apply_each_self:
  "map face_visible fs = map (array_get m) [k..<k + length fs] \<Longrightarrow> apply_each m k fs = fs"
proof (induction fs arbitrary: k)
  case Nil
  then show ?case by simp
next
  case (Cons f fs)
  have "[k..<k + length (f # fs)] = k # [Suc k..<Suc k + length fs]"
    by (simp add: upt_rec)
  from Cons.prems [unfolded this]
  have "face_visible f = array_get m k
        \<and> map face_visible fs = map (array_get m) [Suc k..<Suc k + length fs]"
    by (simp only: list.map list.inject)
  with Cons.IH [of "Suc k"] show ?case by simp
qed

lemma apply_each_overwrites: "apply_each m k (apply_each m' k' fs) = apply_each m k fs"
  by (rule apply_each_cong) (rule index_arrays_apply_each)

lemma one_minus_twice: "b = Num 0 \<or> b = Num 1 \<Longrightarrow> one_minus (one_minus b) = b"
  by auto

lemma surface_after_two_reverses:
  "g_surface (reverse (reverse w)) =
     (g_surface w)\<lparr>face_array :=
        apply_each (map one_minus (map one_minus (g_mask w))) 0 (face_array (g_surface w))\<rparr>"
  by (simp add: reverse_def filter_apply_def apply_each_overwrites)

lemma mask_reverse: "g_mask (reverse w) = map one_minus (g_mask w)"
  by (simp add: reverse_def filter_apply_def)

text \<open>
  Claim C6, as stated, fails.  After \<open>dim 3 3\<close>, \<open>list 0 1 0 1\<close>, \<open>dim 3 3\<close> the mask is
  \<open>[0, 1, 0, 1]\<close> and has the length of the face count, but the faces, generated anew, are
  all visible; \<open>reverse\<close> twice restores the mask and leaves the index array of that mask,
  which is not the index array before.
\<close>

theorem reverse_twice_counterexample:
  "g_mask (dim_msg [3, 3] (list_msg [0, 1, 0, 1] (dim_msg [3, 3] loaded))) = [Num 0, Num 1, Num 0, Num 1]
   \<and> face_count (g_surface (dim_msg [3, 3] (list_msg [0, 1, 0, 1] (dim_msg [3, 3] loaded)))) = 4
   \<and> index_array (g_surface (dim_msg [3, 3] (list_msg [0, 1, 0, 1] (dim_msg [3, 3] loaded)))) =
       [1, 0, 3, 4, 2, 1, 4, 5, 4, 3, 6, 7, 5, 4, 7, 8]
   \<and> index_array (g_surface (reverse (reverse
         (dim_msg [3, 3] (list_msg [0, 1, 0, 1] (dim_msg [3, 3] loaded)))))) =
       [0, 0, 0, 0, 2, 1, 4, 5, 0, 0, 0, 0, 5, 4, 7, 8]
   \<and> index_array (g_surface (reverse (reverse
         (dim_msg [3, 3] (list_msg [0, 1, 0, 1] (dim_msg [3, 3] loaded)))))) \<noteq>
       index_array (g_surface (dim_msg [3, 3] (list_msg [0, 1, 0, 1] (dim_msg [3, 3] loaded))))"
  by code_simp

text \<open>
  Claim C6, amended.  When the mask holds zeros and ones only and has the length of the face
  count, \<open>reverse\<close> twice restores the mask and leaves the surface that \<open>Filter.apply\<close>
  with that mask leaves.  When moreover each face has the visibility that the mask holds at
  its position (the mask is the one applied), it restores the surface and its index array.
\<close>

theorem reverse_twice:
  assumes bits: "\<forall>b \<in> set (g_mask w). b = Num 0 \<or> b = Num 1"
    and len: "length (g_mask w) = face_count (g_surface w)"
  shows "g_mask (reverse (reverse w)) = g_mask w
       \<and> g_surface (reverse (reverse w)) = g_surface (filter_apply w)
       \<and> index_array (g_surface (reverse (reverse w))) = index_array (g_surface (filter_apply w))
       \<and> (map face_visible (face_array (g_surface w)) = g_mask w \<longrightarrow>
            g_surface (reverse (reverse w)) = g_surface w
          \<and> index_array (g_surface (reverse (reverse w))) = index_array (g_surface w))"
proof -
  have mm: "map one_minus (map one_minus (g_mask w)) = g_mask w"
  proof -
    have "map (\<lambda>b. one_minus (one_minus b)) (g_mask w) = g_mask w"
      by (rule map_idI) (simp add: bits one_minus_twice)
    then show ?thesis by (simp add: o_def)
  qed
  then have mm': "map (one_minus \<circ> one_minus) (g_mask w) = g_mask w"
    by simp
  have m: "g_mask (reverse (reverse w)) = g_mask w"
    by (simp add: mask_reverse mm')
  have s: "g_surface (reverse (reverse w)) = g_surface (filter_apply w)"
    by (simp add: surface_after_two_reverses mm' filter_apply_def)
  have same: "g_surface (filter_apply w) = g_surface w"
    if ap: "map face_visible (face_array (g_surface w)) = g_mask w"
  proof -
    have "map face_visible (face_array (g_surface w)) =
          map (array_get (g_mask w)) [0..<0 + length (face_array (g_surface w))]"
      using map_array_get [of "g_mask w"] len ap by (simp add: face_count_def)
    then have "apply_each (g_mask w) 0 (face_array (g_surface w)) = face_array (g_surface w)"
      by (rule apply_each_self)
    then show ?thesis by (simp add: filter_apply_def)
  qed
  from m s same show ?thesis
    by simp
qed

theorem reverse_twice_witness:
  "g_mask (list_msg [0, 1, 0, 1] (dim_msg [3, 3] loaded)) = [Num 0, Num 1, Num 0, Num 1]
   \<and> length (g_mask (list_msg [0, 1, 0, 1] (dim_msg [3, 3] loaded))) =
       face_count (g_surface (list_msg [0, 1, 0, 1] (dim_msg [3, 3] loaded)))
   \<and> map face_visible (face_array (g_surface (list_msg [0, 1, 0, 1] (dim_msg [3, 3] loaded)))) =
       g_mask (list_msg [0, 1, 0, 1] (dim_msg [3, 3] loaded))
   \<and> g_mask (reverse (reverse (list_msg [0, 1, 0, 1] (dim_msg [3, 3] loaded)))) =
       [Num 0, Num 1, Num 0, Num 1]
   \<and> index_array (g_surface (reverse (reverse (list_msg [0, 1, 0, 1] (dim_msg [3, 3] loaded))))) =
       [0, 0, 0, 0, 2, 1, 4, 5, 0, 0, 0, 0, 5, 4, 7, 8]"
proof -
  let ?w = "list_msg [0, 1, 0, 1] (dim_msg [3, 3] loaded)"
  have mk: "g_mask ?w = [Num 0, Num 1, Num 0, Num 1]"
    by code_simp
  have bits: "\<forall>b \<in> set (g_mask ?w). b = Num 0 \<or> b = Num 1"
    unfolding mk by simp
  have len: "length (g_mask ?w) = face_count (g_surface ?w)"
    by code_simp
  have ap: "map face_visible (face_array (g_surface ?w)) = g_mask ?w"
    by code_simp
  have ia: "index_array (g_surface ?w) = [0, 0, 0, 0, 2, 1, 4, 5, 0, 0, 0, 0, 5, 4, 7, 8]"
    by code_simp
  note th = reverse_twice [OF bits len]
  have "g_mask (reverse (reverse ?w)) = [Num 0, Num 1, Num 0, Num 1]"
    using th [THEN conjunct1] mk by simp
  moreover have "index_array (g_surface (reverse (reverse ?w))) =
       [0, 0, 0, 0, 2, 1, 4, 5, 0, 0, 0, 0, 5, 4, 7, 8]"
    using th [THEN conjunct2, THEN conjunct2, THEN conjunct2] ap ia by simp
  ultimately show ?thesis
    using mk len ap by blast
qed

section \<open>The list message\<close>

text \<open>
  Claim C7, as stated, fails.  After \<open>dim 3 3\<close> the surface has four faces; \<open>list 0\<close>
  sets a mask of length one, and \<open>Filter.apply\<close> goes on: the first face is hidden, the
  other three get the visibility \<open>undefined\<close>, and the index array changes.
\<close>

theorem list_msg_mismatch_counterexample:
  "length [0::int] \<noteq> face_count (g_surface (dim_msg [3, 3] loaded))
   \<and> map face_visible (face_array (g_surface (dim_msg [3, 3] loaded))) = [Num 1, Num 1, Num 1, Num 1]
   \<and> map face_visible (face_array (g_surface (list_msg [0] (dim_msg [3, 3] loaded)))) =
       [Num 0, Undefined, Undefined, Undefined]
   \<and> g_mask (list_msg [0] (dim_msg [3, 3] loaded)) = [Num 0]
   \<and> index_array (g_surface (list_msg [0] (dim_msg [3, 3] loaded))) =
       [0, 0, 0, 0, 0, 0, 0, 0, 0, 0, 0, 0, 0, 0, 0, 0]
   \<and> list_msg [0] (dim_msg [3, 3] loaded) \<noteq> dim_msg [3, 3] loaded"
  by code_simp

text \<open>
  Claim C7, amended.  The \<open>list\<close> message has no failing branch: whatever the length of the
  list, the mask becomes the list, the draw flag is set, and the surface keeps its
  dimension, its draw mode, its face count and the index arrays of its faces, the face at
  position \<open>k\<close> getting the visibility \<open>list[k]\<close>, or \<open>undefined\<close> when \<open>k\<close> is at or
  past the list's length.
\<close>

theorem list_msg_any_length:
  "g_mask (list_msg a w) = map Num a
   \<and> draw (list_msg a w)
   \<and> glob_i (list_msg a w) = glob_i w \<and> glob_j (list_msg a w) = glob_j w
   \<and> dim (g_surface (list_msg a w)) = dim (g_surface w)
   \<and> draw_mode (g_surface (list_msg a w)) = draw_mode (g_surface w)
   \<and> face_count (g_surface (list_msg a w)) = face_count (g_surface w)
   \<and> map face_index_array (face_array (g_surface (list_msg a w))) =
       map face_index_array (face_array (g_surface w))
   \<and> map face_visible (face_array (g_surface (list_msg a w))) =
       map (\<lambda>k. if k < length a then Num (a ! k) else Undefined) [0..<face_count (g_surface w)]"
proof -
  have "map (array_get (map Num a)) [0..<face_count (g_surface w)] =
        map (\<lambda>k. if k < length a then Num (a ! k) else Undefined) [0..<face_count (g_surface w)]"
    by (rule map_cong) (simp_all add: array_get_def)
  then show ?thesis
    by (simp add: list_msg_def filter_apply_def face_count_def length_apply_each
          index_arrays_apply_each visibles_apply_each)
qed

section \<open>The dim message\<close>

lemma surface_generate_no_face:
  assumes "fst (dim (g_surface w)) = 1 \<or> snd (dim (g_surface w)) = 1"
  shows "face_array (g_surface (surface_generate w)) = []"
  using assms
  by (auto simp: surface_generate_def quad_grid_face_array tri_grid_face_array)

lemma dim_surface_generate: "dim (g_surface (surface_generate w)) = dim (g_surface w)"
  by (simp add: surface_generate_def quad_grid_def tri_grid_def split: prod.splits)

lemma g_mask_surface_generate: "g_mask (surface_generate w) = g_mask w"
  by (simp add: surface_generate_def quad_grid_def tri_grid_def split: prod.splits)

text \<open>
  Claim C8, as stated, fails.  After \<open>dim 3 3\<close>, the message \<open>dim 1 3\<close>, with a component
  below 2, is accepted: the dimension becomes \<open>(1, 3)\<close> and the face array is regenerated,
  empty.
\<close>

theorem dim_msg_below_two_counterexample:
  "dim (g_surface (dim_msg [3, 3] loaded)) = (3, 3)
   \<and> face_count (g_surface (dim_msg [3, 3] loaded)) = 4
   \<and> dim (g_surface (dim_msg [1, 3] (dim_msg [3, 3] loaded))) = (1, 3)
   \<and> face_array (g_surface (dim_msg [1, 3] (dim_msg [3, 3] loaded))) = []
   \<and> g_surface (dim_msg [1, 3] (dim_msg [3, 3] loaded)) \<noteq> g_surface (dim_msg [3, 3] loaded)"
  by code_simp

text \<open>
  Claim C8, amended.  The \<open>dim\<close> message leaves the world as it is, without a failure,
  when a component is 0 or less, or when it has not two components.  With two components,
  both at least 1, it is accepted: the dimension becomes the pair, the faces are
  regenerated for it in the same draw mode, the draw flag is set and the mask stays; when
  a component is 1 no face is left.
\<close>

theorem dim_msg_guard:
  "(cols \<le> 0 \<or> rows \<le> 0 \<longrightarrow> dim_msg [cols, rows] w = w)
   \<and> (length a \<noteq> 2 \<longrightarrow> dim_msg a w = w)
   \<and> (0 < cols \<and> 0 < rows \<longrightarrow>
        dim (g_surface (dim_msg [cols, rows] w)) = (cols, rows)
      \<and> draw_mode (g_surface (dim_msg [cols, rows] w)) = draw_mode (g_surface w)
      \<and> g_mask (dim_msg [cols, rows] w) = g_mask w
      \<and> draw (dim_msg [cols, rows] w)
      \<and> g_surface (dim_msg [cols, rows] w) =
          g_surface (surface_generate (w\<lparr>g_surface := (g_surface w)\<lparr>dim := (cols, rows)\<rparr>\<rparr>))
      \<and> (cols = 1 \<or> rows = 1 \<longrightarrow> face_array (g_surface (dim_msg [cols, rows] w)) = []))"
  by (simp add: dim_msg_def dim_surface_generate generated_draw_mode g_mask_surface_generate
        surface_generate_no_face)

theorem dim_msg_guard_witness:
  "(0::int) \<le> 0 \<and> dim_msg [0, 3] (dim_msg [3, 3] loaded) = dim_msg [3, 3] loaded
   \<and> length [3::int] \<noteq> 2 \<and> dim_msg [3] (dim_msg [3, 3] loaded) = dim_msg [3, 3] loaded
   \<and> (0::int) < 1 \<and> (0::int) < 3
   \<and> dim (g_surface (dim_msg [1, 3] (dim_msg [3, 3] loaded))) = (1, 3)
   \<and> face_array (g_surface (dim_msg [1, 3] (dim_msg [3, 3] loaded))) = []"
proof -
  let ?w = "dim_msg [3, 3] loaded"
  have "dim_msg [0, 3] ?w = ?w"
    using dim_msg_guard [of 0 3 ?w "[3]", THEN conjunct1] by simp
  moreover have "dim_msg [3] ?w = ?w"
    using dim_msg_guard [of 0 3 ?w "[3]", THEN conjunct2, THEN conjunct1] by simp
  moreover have pos: "(0::int) < 1 \<and> (0::int) < 3"
    by simp
  note acc = dim_msg_guard [of 1 3 ?w "[3]", THEN conjunct2, THEN conjunct2, rule_format, OF pos]
  have "dim (g_surface (dim_msg [1, 3] ?w)) = (1, 3)"
    by (rule acc [THEN conjunct1])
  moreover have "face_array (g_surface (dim_msg [1, 3] ?w)) = []"
    by (rule acc [THEN conjunct2, THEN conjunct2, THEN conjunct2, THEN conjunct2, THEN conjunct2,
                  rule_format]) simp
  ultimately show ?thesis
    by simp
qed

end
